theory Spec2Isabelle
  imports Main "HOL-Library.Word"
begin

section \<open>Values of the program\<close>

text \<open>
  The header \<^verbatim>\<open>persistent.h\<close> overlays C++ values on a shared memory mapping of a
  file. The embedding keeps the program's own data and models the POSIX calls it makes
  (\<^verbatim>\<open>open\<close>, \<^verbatim>\<open>lseek\<close>, \<^verbatim>\<open>write\<close>, \<^verbatim>\<open>mmap\<close>, \<^verbatim>\<open>munmap\<close>,
  \<^verbatim>\<open>close\<close>) as functions on an explicit state of the operating system.

  Integer types follow the LP64 data model of the platform the header is written for
  (it includes \<^verbatim>\<open>sys/mman.h\<close>): \<^verbatim>\<open>size_t\<close> has 64 bits, \<^verbatim>\<open>unsigned\<close> has 32 and
  \<^verbatim>\<open>off_t\<close> is signed. Sizes are natural numbers and the two places where the source
  can lose bits (\<^verbatim>\<open>n*sizeof(T)\<close> and the \<^verbatim>\<open>unsigned\<close> result of \<^verbatim>\<open>alloc::size()\<close>)
  are written out with \<open>size_t\<close> and \<open>unsigned\<close>.
\<close>

type_synonym byte = "8 word"

definition size_t :: "nat \<Rightarrow> nat" where
  "size_t n = n mod 2 ^ 64"

definition unsigned :: "nat \<Rightarrow> nat" where
  "unsigned n = n mod 2 ^ 32"

text \<open>
  A \<^verbatim>\<open>char*\<close> of the program is the null pointer, the value \<^verbatim>\<open>MAP_FAILED\<close>
  (\<^verbatim>\<open>(void*)-1\<close>, which is not null), or an offset into a mapping.
\<close>

datatype ptr = nullptr | MAP_FAILED | Ptr nat nat

fun ptr_add :: "ptr \<Rightarrow> nat \<Rightarrow> ptr" where
  "ptr_add (Ptr m off) k = Ptr m (off + k)"
| "ptr_add p k = p"

text \<open>
  What the program throws: \<^verbatim>\<open>tmx::syserr\<close> with its text, \<^verbatim>\<open>tmx::error\<close> wrapping
  the file name and the message of a caught exception, and the \<^verbatim>\<open>tmx::error\<close> of
  \<^verbatim>\<open>operator[]\<close> with the index and the size it prints, and the \<^verbatim>\<open>std::bad_alloc\<close>
  of \<^verbatim>\<open>new[]\<close>. \<open>segv\<close> is the end of the process by a signal, at a store or load
  through an address that is not mapped or whose page lies behind the end of the file.
\<close>

datatype exn = syserr string | error string exn | overlimit nat nat | bad_alloc | segv

datatype 'a event = Write int nat | Munmap ptr nat | Constructed ptr 'a

section \<open>The operating system\<close>

record ofd =
  ofd_path :: string
  ofd_pos :: nat

record mapping =
  mp_path :: string
  mp_len :: nat

text \<open>
  \<open>files\<close> are the regular files by path. \<open>tail\<close> holds, for each file, the bytes of
  the page cache behind the end of the file: what a shared mapping shows there and what
  a store there changes, without changing the file. \<open>fds\<close> are the open descriptors of
  the process and \<open>next_fd\<close> a bound above all of them; \<open>maps\<close> are its live shared
  mappings. \<open>disk_free\<close> is the number of bytes by which files can still grow.
  \<open>write_ret\<close> is what the kernel is prepared to transfer in one call of \<^verbatim>\<open>write\<close>
  for a request of that many bytes (negative: the call fails); it can be less than the
  request while the disk has room. \<open>heap_free\<close> is the memory that \<^verbatim>\<open>new[]\<close> can
  still hand out and \<open>junk\<close> the content of heap memory that the program has not
  initialised. \<open>events\<close> records, in order, the calls of \<^verbatim>\<open>write\<close> and
  \<^verbatim>\<open>munmap\<close> and the constructor calls of the element type.
\<close>

record 'a os =
  files :: "string \<Rightarrow> byte list option"
  tail :: "string \<Rightarrow> nat \<Rightarrow> byte"
  fds :: "int \<Rightarrow> ofd option"
  next_fd :: nat
  maps :: "nat \<Rightarrow> mapping option"
  next_map :: nat
  disk_free :: nat
  write_ret :: "nat \<Rightarrow> int"
  heap_free :: nat
  junk :: "nat \<Rightarrow> byte"
  events :: "'a event list"

text \<open>A new descriptor is the lowest one that is not open.\<close>

definition lowest_fd :: "'a os \<Rightarrow> nat" where
  "lowest_fd os =
     (case find (\<lambda>i. fds os (int i) = None) [0..<next_fd os] of
        Some i \<Rightarrow> i
      | None \<Rightarrow> next_fd os)"

definition new_fd :: "string \<Rightarrow> 'a os \<Rightarrow> int \<times> 'a os" where
  "new_fd file os =
     (int (lowest_fd os),
      os\<lparr>fds := (fds os)(int (lowest_fd os) \<mapsto> \<lparr>ofd_path = file, ofd_pos = 0\<rparr>),
         next_fd := max (next_fd os) (Suc (lowest_fd os))\<rparr>)"

text \<open>\<^verbatim>\<open>::open(file, O_RDWR|O_CREAT|O_EXCL, mode)\<close>: fails when the file exists.\<close>

definition sys_open_excl :: "string \<Rightarrow> 'a os \<Rightarrow> int \<times> 'a os" where
  "sys_open_excl file os =
     (case files os file of
        Some c \<Rightarrow> (- 1, os)
      | None \<Rightarrow> new_fd file (os\<lparr>files := (files os)(file \<mapsto> [])\<rparr>))"

text \<open>\<^verbatim>\<open>::open(file, O_RDWR, mode)\<close>: fails when the file does not exist.\<close>

definition sys_open :: "string \<Rightarrow> 'a os \<Rightarrow> int \<times> 'a os" where
  "sys_open file os =
     (case files os file of
        None \<Rightarrow> (- 1, os)
      | Some c \<Rightarrow> new_fd file os)"

datatype whence = SEEK_SET | SEEK_END

definition sys_lseek :: "int \<Rightarrow> int \<Rightarrow> whence \<Rightarrow> 'a os \<Rightarrow> int \<times> 'a os" where
  "sys_lseek fd offset w os =
     (case fds os fd of
        None \<Rightarrow> (- 1, os)
      | Some d \<Rightarrow>
          (case files os (ofd_path d) of
             None \<Rightarrow> (- 1, os)
           | Some c \<Rightarrow>
               (let pos = (case w of SEEK_SET \<Rightarrow> offset | SEEK_END \<Rightarrow> int (length c) + offset)
                in if pos < 0 then (- 1, os)
                   else (pos, os\<lparr>fds := (fds os)(fd \<mapsto> d\<lparr>ofd_pos := nat pos\<rparr>)\<rparr>))))"

text \<open>
  \<^verbatim>\<open>::write(fd, buf, count)\<close> at the position of the descriptor. Bytes that replace
  bytes of the file need no room; the others need \<open>disk_free\<close>. The call transfers
  at most what \<open>write_ret\<close> allows and what there is room for, and returns the number
  of bytes transferred (a short write). It fails when \<open>write_ret\<close> is negative or when
  there is room for none of a non-empty buffer.
\<close>

definition sys_write :: "int \<Rightarrow> byte list \<Rightarrow> 'a os \<Rightarrow> int \<times> 'a os" where
  "sys_write fd buf os =
     (let os1 = os\<lparr>events := events os @ [Write fd (length buf)]\<rparr> in
      case fds os fd of
        None \<Rightarrow> (- 1, os1)
      | Some d \<Rightarrow>
          (case files os (ofd_path d) of
             None \<Rightarrow> (- 1, os1)
           | Some c \<Rightarrow>
               (let pos = ofd_pos d;
                    room = (length c - pos) + disk_free os;
                    k = min (length buf) (min (nat (write_ret os (length buf))) room)
                in if write_ret os (length buf) < 0 \<or> (buf \<noteq> [] \<and> room = 0) then (- 1, os1)
                   else
                     (int k,
                      os1\<lparr>files := (files os)(ofd_path d \<mapsto>
                              take pos (c @ replicate (pos - length c) 0) @ take k buf
                                @ drop (pos + k) c),
                          fds := (fds os)(fd \<mapsto> d\<lparr>ofd_pos := pos + k\<rparr>),
                          disk_free := disk_free os - (k - (length c - pos))\<rparr>))))"

definition sys_close :: "int \<Rightarrow> 'a os \<Rightarrow> 'a os" where
  "sys_close fd os = os\<lparr>fds := (fds os)(fd := None)\<rparr>"

text \<open>
  \<^verbatim>\<open>::mmap(0, n, PROT_READ|PROT_WRITE, MAP_SHARED, fd, 0)\<close> returns \<^verbatim>\<open>MAP_FAILED\<close>
  when it fails: for a length of 0 and for a descriptor that is not open. Otherwise the
  first \<open>n\<close> bytes of the file are mapped at a new address.
\<close>

definition sys_mmap :: "nat \<Rightarrow> int \<Rightarrow> 'a os \<Rightarrow> ptr \<times> 'a os" where
  "sys_mmap n fd os =
     (case fds os fd of
        None \<Rightarrow> (MAP_FAILED, os)
      | Some d \<Rightarrow>
          if n = 0 then (MAP_FAILED, os)
          else (Ptr (next_map os) 0,
                os\<lparr>maps := (maps os)(next_map os \<mapsto> \<lparr>mp_path = ofd_path d, mp_len = n\<rparr>),
                   next_map := Suc (next_map os)\<rparr>))"

text \<open>\<^verbatim>\<open>::munmap(p, n)\<close> removes the mapping that starts at \<open>p\<close>; the bytes of the file stay.\<close>

definition sys_munmap :: "ptr \<Rightarrow> nat \<Rightarrow> 'a os \<Rightarrow> 'a os" where
  "sys_munmap p n os =
     (let os1 = os\<lparr>events := events os @ [Munmap p n]\<rparr> in
      case p of
        Ptr m off \<Rightarrow>
          if off = 0 \<and> 0 < n \<and> maps os m \<noteq> None then os1\<lparr>maps := (maps os)(m := None)\<rparr>
          else os1
      | _ \<Rightarrow> os1)"

text \<open>
  A mapping consists of whole pages, of 4096 bytes on the platform. An access is
  possible up to the end of the last page of the mapping and up to the end of the page
  that holds the last byte of the file; behind that the process ends with a signal.
\<close>

definition page_size :: nat where
  "page_size = 4096"

definition page_up :: "nat \<Rightarrow> nat" where
  "page_up n = ((n + page_size - 1) div page_size) * page_size"

text \<open>
  What a shared mapping of a file shows at an offset: the byte of the file, and behind
  the end of the file the byte of the page cache.
\<close>

definition view :: "'a os \<Rightarrow> string \<Rightarrow> nat \<Rightarrow> byte" where
  "view os file i =
     (case files os file of
        None \<Rightarrow> tail os file i
      | Some c \<Rightarrow> if i < length c then c ! i else tail os file i)"

text \<open>
  A store through a pointer into a shared mapping changes the bytes of the file, and
  behind the end of the file the bytes of the page cache only; a load reads them.
\<close>

definition store :: "ptr \<Rightarrow> byte list \<Rightarrow> 'a os \<Rightarrow> exn + 'a os" where
  "store p bs os =
     (case p of
        Ptr m off \<Rightarrow>
          (case maps os m of
             None \<Rightarrow> Inl segv
           | Some mp \<Rightarrow>
               (case files os (mp_path mp) of
                  None \<Rightarrow> Inl segv
                | Some c \<Rightarrow>
                    if off + length bs \<le> page_up (mp_len mp)
                       \<and> off + length bs \<le> page_up (length c)
                    then Inr (os\<lparr>files := (files os)(mp_path mp \<mapsto>
                                 take off c @ take (length c - off) bs
                                   @ drop (off + length bs) c),
                              tail := (tail os)(mp_path mp :=
                                 (\<lambda>i. if length c \<le> i \<and> off \<le> i \<and> i < off + length bs
                                      then bs ! (i - off) else tail os (mp_path mp) i))\<rparr>)
                    else Inl segv))
      | _ \<Rightarrow> Inl segv)"

definition load :: "ptr \<Rightarrow> nat \<Rightarrow> 'a os \<Rightarrow> exn + byte list" where
  "load p n os =
     (case p of
        Ptr m off \<Rightarrow>
          (case maps os m of
             None \<Rightarrow> Inl segv
           | Some mp \<Rightarrow>
               (case files os (mp_path mp) of
                  None \<Rightarrow> Inl segv
                | Some c \<Rightarrow>
                    if off + n \<le> page_up (mp_len mp) \<and> off + n \<le> page_up (length c)
                    then Inr (map (view os (mp_path mp)) [off..<off + n])
                    else Inl segv))
      | _ \<Rightarrow> Inl segv)"

section \<open>The element type\<close>

text \<open>
  The template parameter \<^verbatim>\<open>T\<close>: its size and the object representation that its
  constructor builds from the constructor arguments, byte by byte. \<^verbatim>\<open>new(p) T(args...)\<close>
  stores that representation at \<open>p\<close>.
\<close>

record 'a ctype =
  sizeof :: nat
  ctor :: "'a \<Rightarrow> nat \<Rightarrow> byte"

definition rep :: "'a ctype \<Rightarrow> 'a \<Rightarrow> byte list" where
  "rep T args = map (ctor T args) [0..<sizeof T]"

definition placement_new :: "'a ctype \<Rightarrow> ptr \<Rightarrow> 'a \<Rightarrow> 'a os \<Rightarrow> exn + 'a os" where
  "placement_new T p args os =
     (case store p (rep T args) os of
        Inl e \<Rightarrow> Inl e
      | Inr os1 \<Rightarrow> Inr (os1\<lparr>events := events os1 @ [Constructed p args]\<rparr>))"

section \<open>resize, open, mmap\<close>

text \<open>
  \<^verbatim>\<open>new char[k]\<close>: a buffer of \<open>k\<close> bytes that nothing has initialised, or
  \<^verbatim>\<open>std::bad_alloc\<close>. \<open>resize\<close> never deletes its buffer, so the memory stays taken.
\<close>

definition heap_bytes :: "nat \<Rightarrow> 'a os \<Rightarrow> byte list" where
  "heap_bytes k os = map (junk os) [0..<k]"

definition new_char :: "nat \<Rightarrow> 'a os \<Rightarrow> exn + byte list \<times> 'a os" where
  "new_char k os =
     (if heap_free os < k then Inl bad_alloc
      else Inr (heap_bytes k os, os\<lparr>heap_free := heap_free os - k\<rparr>))"

definition resize :: "int \<Rightarrow> nat \<Rightarrow> 'a os \<Rightarrow> exn + nat \<times> 'a os" where
  "resize fd n os =
     (case sys_lseek fd 0 SEEK_END os of
        (off, os1) \<Rightarrow>
          if off < 0 then Inl (syserr ''persistent::resize'')
          else
            (case (if n = 0 then Inr (nat off, os1)
                   else if off < int n then
                     (case new_char (n - nat off) os1 of
                        Inl e \<Rightarrow> Inl e
                      | Inr (buf, os1a) \<Rightarrow>
                          (case sys_write fd buf os1a of
                             (w, os2) \<Rightarrow>
                               if w < 0 then Inl (syserr ''persistent::resize'')
                               else Inr (n, os2)))
                   else Inr (n, os1)) of
               Inl e \<Rightarrow> Inl e
             | Inr (n1, os2) \<Rightarrow>
                 Inr (min (nat off) n1, snd (sys_lseek fd 0 SEEK_SET os2))))"

text \<open>
  Modelled from the spec: \<^verbatim>\<open>tmx::enforce\<close> and \<^verbatim>\<open>tmx::syserr\<close> are declared in
  \<^verbatim>\<open>tmx/sysutil.h\<close>, which is not part of the sources; \<^verbatim>\<open>enforce(c, x)\<close> throws
  \<open>x\<close> unless \<open>c\<close> holds (opening a file that does not exist with size 0 is a failure).
\<close>

definition "open" :: "string \<Rightarrow> nat \<Rightarrow> 'a os \<Rightarrow> exn + (int \<times> nat) \<times> 'a os" where
  "open file n os =
     (case (if n \<noteq> 0 then sys_open_excl file os else (- 1, os)) of
        (fd, os1) \<Rightarrow>
          (case (if fd < 0 then
                   (case sys_open file os1 of
                      (fd2, os2) \<Rightarrow>
                        if fd2 \<ge> 0 then Inr (fd2, os2) else Inl (syserr ''persistent: %s''))
                 else Inr (fd, os1)) of
             Inl e \<Rightarrow> Inl e
           | Inr (fd3, os3) \<Rightarrow>
               (case resize fd3 n os3 of
                  Inl e \<Rightarrow> Inl e
                | Inr (r, os4) \<Rightarrow> Inr ((fd3, r), os4))))"

definition mmap :: "nat \<Rightarrow> int \<Rightarrow> 'a os \<Rightarrow> exn + ptr \<times> 'a os" where
  "mmap n fd os =
     (case sys_mmap n fd os of
        (m, os1) \<Rightarrow> if m = nullptr then Inl (syserr ''mmap'') else Inr (m, os1))"

section \<open>memory and alloc: the owners of a mapping\<close>

text \<open>
  Modelled from the spec: \<^verbatim>\<open>tmx::fd_guard\<close> is declared in \<^verbatim>\<open>tmx/sysutil.h\<close>, which
  is not part of the sources; it closes the descriptor when the constructor's block
  ends (the descriptor may be released once the mapping exists).

  An exception ends a constructor; the state of the operating system behind an exception
  is not followed further.
\<close>

text \<open>
  A class is a record of its fields; a derived class extends the record of its base, and
  the member functions it inherits take any extension of the base's record.
\<close>

record memory =
  m_map :: ptr
  m_init :: nat


text \<open>
  The move constructor \<^verbatim>\<open>memory(memory&& m)\<close> starts from null and 0 and swaps each
  field with the source's; the result is the new handle and the source after the move.
\<close>

definition memory_move :: "memory \<Rightarrow> memory \<times> memory" where
  "memory_move m =
     (case prod.swap (nullptr, m_map m) of
        (this_map, src_map) \<Rightarrow>
          (case prod.swap (0, m_init m) of
             (this_init, src_init) \<Rightarrow>
               (\<lparr>m_map = this_map, m_init = this_init\<rparr>,
                \<lparr>m_map = src_map, m_init = src_init\<rparr>)))"

definition memory_dtor :: "nat \<Rightarrow> 'z memory_scheme \<Rightarrow> 'a os \<Rightarrow> 'a os" where
  "memory_dtor SIZE m os = (if m_map m \<noteq> nullptr then sys_munmap (m_map m) SIZE os else os)"


record alloc =
  a_map :: ptr
  a_init :: nat
  a_size :: nat

definition alloc_ctor :: "nat \<Rightarrow> string \<Rightarrow> 'a os \<Rightarrow> exn + alloc \<times> 'a os" where
  "alloc_ctor n file os =
     (case open file n os of
        Inl x \<Rightarrow> Inl (error file x)
      | Inr ((fd, init), os1) \<Rightarrow>
          (case mmap n fd os1 of
             Inl x \<Rightarrow> Inl (error file x)
           | Inr (m, os2) \<Rightarrow>
               Inr (\<lparr>a_map = m, a_init = init, a_size = n\<rparr>, sys_close fd os2)))"

text \<open>\<^verbatim>\<open>alloc(const std::string& file)\<close>: the file as it is.\<close>

definition alloc_ctor_file :: "string \<Rightarrow> 'a os \<Rightarrow> exn + alloc \<times> 'a os" where
  "alloc_ctor_file file os =
     (case open file 0 os of
        Inl x \<Rightarrow> Inl (error file x)
      | Inr ((fd, sz), os1) \<Rightarrow>
          (case mmap sz fd os1 of
             Inl x \<Rightarrow> Inl (error file x)
           | Inr (m, os2) \<Rightarrow>
               Inr (\<lparr>a_map = m, a_init = sz, a_size = sz\<rparr>, sys_close fd os2)))"

definition alloc_move :: "alloc \<Rightarrow> alloc \<times> alloc" where
  "alloc_move m =
     (case prod.swap (nullptr, a_map m) of
        (this_map, src_map) \<Rightarrow>
          (case prod.swap (0, a_init m) of
             (this_init, src_init) \<Rightarrow>
               (case prod.swap (0, a_size m) of
                  (this_size, src_size) \<Rightarrow>
                    (\<lparr>a_map = this_map, a_init = this_init, a_size = this_size\<rparr>,
                     \<lparr>a_map = src_map, a_init = src_init, a_size = src_size\<rparr>))))"

text \<open>
  \<^verbatim>\<open>alloc& operator=(alloc&& m)\<close> on two different handles: the fields are swapped.
  The result is the assigned handle and the source after the assignment.
\<close>

definition alloc_move_assign :: "alloc \<Rightarrow> alloc \<Rightarrow> alloc \<times> alloc" where
  "alloc_move_assign this m =
     (case prod.swap (a_map this, a_map m) of
        (this_map, src_map) \<Rightarrow>
          (case prod.swap (a_init this, a_init m) of
             (this_init, src_init) \<Rightarrow>
               (case prod.swap (a_size this, a_size m) of
                  (this_size, src_size) \<Rightarrow>
                    (\<lparr>a_map = this_map, a_init = this_init, a_size = this_size\<rparr>,
                     \<lparr>a_map = src_map, a_init = src_init, a_size = src_size\<rparr>))))"

definition alloc_dtor :: "'z alloc_scheme \<Rightarrow> 'a os \<Rightarrow> 'a os" where
  "alloc_dtor m os = (if a_map m \<noteq> nullptr then sys_munmap (a_map m) (a_size m) os else os)"

definition alloc_initialized :: "'z alloc_scheme \<Rightarrow> nat" where
  "alloc_initialized m = a_init m"

text \<open>\<^verbatim>\<open>unsigned size() const { return _size; }\<close>: the \<^verbatim>\<open>size_t\<close> field leaves as \<^verbatim>\<open>unsigned\<close>.\<close>

definition alloc_size :: "'z alloc_scheme \<Rightarrow> nat" where
  "alloc_size m = unsigned (a_size m)"

section \<open>object\<close>

record object = memory +
  o_po :: ptr


text \<open>\<^verbatim>\<open>object(object<T>&&) =default\<close>: the base is moved, the member \<^verbatim>\<open>_po\<close> is copied.\<close>

definition object_move :: "object \<Rightarrow> object \<times> object" where
  "object_move m =
     (case memory_move \<lparr>m_map = m_map m, m_init = m_init m\<rparr> of
        (this_base, src_base) \<Rightarrow>
          (\<lparr>m_map = m_map this_base, m_init = m_init this_base, o_po = o_po m\<rparr>,
           \<lparr>m_map = m_map src_base, m_init = m_init src_base, o_po = o_po m\<rparr>))"

text \<open>\<^verbatim>\<open>~object()\<close> has an empty body; the destructor of the base runs.\<close>

definition object_dtor :: "'a ctype \<Rightarrow> object \<Rightarrow> 'a os \<Rightarrow> 'a os" where
  "object_dtor T m os = memory_dtor (sizeof T) m os"


section \<open>array\<close>

record array = alloc +
  r_size :: nat
  r_po :: ptr

text \<open>\<^verbatim>\<open>for(size_t i=...; i < _size; ++i) new(_po+i) T(args...);\<close>\<close>

function construct_loop ::
  "'a ctype \<Rightarrow> ptr \<Rightarrow> 'a \<Rightarrow> nat \<Rightarrow> nat \<Rightarrow> 'a os \<Rightarrow> exn + 'a os" where
  "construct_loop T po args i n os =
     (if i < n then
        (case placement_new T (ptr_add po (i * sizeof T)) args os of
           Inl e \<Rightarrow> Inl e
         | Inr os1 \<Rightarrow> construct_loop T po args (Suc i) n os1)
      else Inr os)"
  by pat_completeness auto
termination
  by (relation "measure (\<lambda>(T, po, args, i, n, os). n - i)") auto

declare construct_loop.simps [simp del]

definition array_ctor :: "'a ctype \<Rightarrow> nat \<Rightarrow> string \<Rightarrow> 'a \<Rightarrow> 'a os \<Rightarrow> exn + array \<times> 'a os" where
  "array_ctor T n file args os =
     (case alloc_ctor (size_t (n * sizeof T)) file os of
        Inl e \<Rightarrow> Inl e
      | Inr (base, os1) \<Rightarrow>
          (let this = \<lparr>a_map = a_map base, a_init = a_init base, a_size = a_size base,
                       r_size = n, r_po = a_map base\<rparr>
           in case construct_loop T (r_po this) args
                     (alloc_initialized base div sizeof T) (r_size this) os1 of
                Inl e \<Rightarrow> Inl e
              | Inr os2 \<Rightarrow> Inr (this, os2)))"

definition array_ctor_file :: "'a ctype \<Rightarrow> string \<Rightarrow> 'a os \<Rightarrow> exn + array \<times> 'a os" where
  "array_ctor_file T file os =
     (case alloc_ctor_file file os of
        Inl e \<Rightarrow> Inl e
      | Inr (base, os1) \<Rightarrow>
          Inr (\<lparr>a_map = a_map base, a_init = a_init base, a_size = a_size base,
                r_size = alloc_size base div sizeof T, r_po = a_map base\<rparr>, os1))"

definition array_size :: "array \<Rightarrow> nat" where
  "array_size m = r_size m"

definition array_length :: "array \<Rightarrow> nat" where
  "array_length m = array_size m"

text \<open>\<^verbatim>\<open>T& operator[](size_t n)\<close> and its \<^verbatim>\<open>const\<close> twin; the reference is the address.\<close>

definition array_index :: "'a ctype \<Rightarrow> array \<Rightarrow> nat \<Rightarrow> exn + ptr" where
  "array_index T m n =
     (if n \<ge> r_size m then Inl (overlimit n (r_size m))
      else Inr (ptr_add (r_po m) (n * sizeof T)))"

definition array_index_const :: "'a ctype \<Rightarrow> array \<Rightarrow> nat \<Rightarrow> exn + ptr" where
  "array_index_const T m n =
     (if n \<ge> r_size m then Inl (overlimit n (r_size m))
      else Inr (ptr_add (r_po m) (n * sizeof T)))"

text \<open>\<^verbatim>\<open>array(array<T>&&) =default\<close>: the base is moved, \<^verbatim>\<open>_size\<close> and \<^verbatim>\<open>_po\<close> are copied.\<close>

definition array_move :: "array \<Rightarrow> array \<times> array" where
  "array_move m =
     (case alloc_move \<lparr>a_map = a_map m, a_init = a_init m, a_size = a_size m\<rparr> of
        (this_base, src_base) \<Rightarrow>
          (\<lparr>a_map = a_map this_base, a_init = a_init this_base, a_size = a_size this_base,
            r_size = r_size m, r_po = r_po m\<rparr>,
           \<lparr>a_map = a_map src_base, a_init = a_init src_base, a_size = a_size src_base,
            r_size = r_size m, r_po = r_po m\<rparr>))"

definition array_dtor :: "array \<Rightarrow> 'a os \<Rightarrow> 'a os" where
  "array_dtor m os = alloc_dtor m os"

text \<open>
  \<^verbatim>\<open>array& operator=(array<T>&&) =default\<close>: the base is move-assigned, \<^verbatim>\<open>_size\<close>
  and \<^verbatim>\<open>_po\<close> are copied from the source.
\<close>

definition array_move_assign :: "array \<Rightarrow> array \<Rightarrow> array \<times> array" where
  "array_move_assign this m =
     (case alloc_move_assign \<lparr>a_map = a_map this, a_init = a_init this, a_size = a_size this\<rparr>
             \<lparr>a_map = a_map m, a_init = a_init m, a_size = a_size m\<rparr> of
        (this_base, src_base) \<Rightarrow>
          (\<lparr>a_map = a_map this_base, a_init = a_init this_base, a_size = a_size this_base,
            r_size = r_size m, r_po = r_po m\<rparr>,
           \<lparr>a_map = a_map src_base, a_init = a_init src_base, a_size = a_size src_base,
            r_size = r_size m, r_po = r_po m\<rparr>))"

section \<open>Observations\<close>

text \<open>The constructor calls among the events, in order: the address and the arguments.\<close>

fun constructions :: "'a event list \<Rightarrow> (ptr \<times> 'a) list" where
  "constructions [] = []"
| "constructions (Constructed p args # es) = (p, args) # constructions es"
| "constructions (e # es) = constructions es"

text \<open>The bytes of a file before a call; none when the file does not exist.\<close>

definition bytes_of :: "'a os \<Rightarrow> string \<Rightarrow> byte list" where
  "bytes_of os file = (case files os file of None \<Rightarrow> [] | Some c \<Rightarrow> c)"

text \<open>
  The number of bytes that a call of \<^verbatim>\<open>write\<close> at the end of a file transfers of a
  request for \<open>k\<close> bytes.
\<close>

definition accepted :: "'a os \<Rightarrow> nat \<Rightarrow> nat" where
  "accepted os k = min k (min (nat (write_ret os k)) (disk_free os))"

text \<open>
  Concrete inputs: an element type of four bytes whose constructor stores its argument
  and the three numbers after it, and a process with no files, the descriptors 0, 1
  and 2 open on a terminal, room for 100 bytes on the disk, a kernel that transfers
  whole requests, 1000 bytes of heap and \<open>0xAA\<close> in uninitialised memory.
\<close>

definition T4 :: "nat ctype" where
  "T4 = \<lparr>sizeof = 4, ctor = (\<lambda>a i. of_nat (a + i))\<rparr>"

definition os_empty :: "nat os" where
  "os_empty = \<lparr>files = Map.empty, tail = (\<lambda>f i. 0),
                fds = [0 \<mapsto> \<lparr>ofd_path = ''/dev/tty'', ofd_pos = 0\<rparr>,
                       1 \<mapsto> \<lparr>ofd_path = ''/dev/tty'', ofd_pos = 0\<rparr>,
                       2 \<mapsto> \<lparr>ofd_path = ''/dev/tty'', ofd_pos = 0\<rparr>],
                next_fd = 3, maps = Map.empty, next_map = 0, disk_free = 100,
                write_ret = int, heap_free = 1000, junk = (\<lambda>i. 170), events = []\<rparr>"

text \<open>The same process with descriptor 3 open on a file \<open>p\<close> of three bytes.\<close>

definition os_fd3 :: "nat os" where
  "os_fd3 = os_empty\<lparr>files := [''p'' \<mapsto> [1, 2, 3]],
                     fds := (fds os_empty)(3 \<mapsto> \<lparr>ofd_path = ''p'', ofd_pos = 0\<rparr>),
                     next_fd := 4\<rparr>"

text \<open>The same process with a file \<open>p\<close> of the given bytes and nothing open.\<close>

definition os_with :: "byte list \<Rightarrow> nat os" where
  "os_with c = os_empty\<lparr>files := [''p'' \<mapsto> c]\<rparr>"

text \<open>An element type of one byte, and a file \<open>p\<close> of \<open>2 ^ 32\<close> bytes.\<close>

definition T1 :: "nat ctype" where
  "T1 = \<lparr>sizeof = 1, ctor = (\<lambda>a i. of_nat a)\<rparr>"

definition os_4g :: "nat os" where
  "os_4g = os_empty\<lparr>files := [''p'' \<mapsto> replicate 4294967296 0]\<rparr>"

text \<open>Handles: an array of three elements on mapping 0, and two regions.\<close>

definition alloc_a :: alloc where
  "alloc_a = \<lparr>a_map = Ptr 0 0, a_init = 12, a_size = 12\<rparr>"

definition alloc_b :: alloc where
  "alloc_b = \<lparr>a_map = Ptr 1 0, a_init = 8, a_size = 8\<rparr>"

text \<open>A process in which the mappings of these two regions are live.\<close>

definition os_maps :: "nat os" where
  "os_maps = os_empty\<lparr>maps := [0 \<mapsto> \<lparr>mp_path = ''p'', mp_len = 12\<rparr>,
                                1 \<mapsto> \<lparr>mp_path = ''q'', mp_len = 8\<rparr>],
                       next_map := 2\<rparr>"

definition arr3 :: array where
  "arr3 = \<lparr>a_map = Ptr 0 0, a_init = 0, a_size = 12, r_size = 3, r_po = Ptr 0 0\<rparr>"

section \<open>Properties of resize and open\<close>

lemma length_heap_bytes [simp]: "length (heap_bytes k os) = k"
  by (simp add: heap_bytes_def)

lemma length_rep [simp]: "length (rep T args) = sizeof T"
  by (simp add: rep_def)

lemma constructions_append [simp]:
  "constructions (xs @ ys) = constructions xs @ constructions ys"
  by (induction xs rule: constructions.induct) simp_all

text \<open>
  At the end of a file, a call of \<^verbatim>\<open>write\<close> that does not fail returns \<open>accepted\<close>
  of the length of its buffer and appends that many bytes of the buffer.
\<close>

lemma sys_write_at_end:
  assumes "fds os fd = Some d" and "files os (ofd_path d) = Some c"
    and "ofd_pos d = length c"
    and "0 \<le> write_ret os (length buf)" and "buf = [] \<or> 0 < disk_free os"
  shows "fst (sys_write fd buf os) = int (accepted os (length buf))"
    and "files (snd (sys_write fd buf os))
           = (files os)(ofd_path d \<mapsto> c @ take (accepted os (length buf)) buf)"
  using assms by (auto simp: sys_write_def Let_def accepted_def)

text \<open>What \<open>resize\<close> does on a descriptor that is open on a file.\<close>

lemma resize_eq:
  assumes "fds os fd = Some d" and "files os (ofd_path d) = Some c"
  shows "resize fd n os =
     (if n \<le> length c then
        Inr (if n = 0 then length c else n, os\<lparr>fds := (fds os)(fd \<mapsto> d\<lparr>ofd_pos := 0\<rparr>)\<rparr>)
      else if heap_free os < n - length c then Inl bad_alloc
      else if write_ret os (n - length c) < 0 \<or> disk_free os = 0
        then Inl (syserr ''persistent::resize'')
      else Inr (length c,
             os\<lparr>files := (files os)(ofd_path d \<mapsto>
                     c @ take (accepted os (n - length c)) (heap_bytes (n - length c) os)),
                fds := (fds os)(fd \<mapsto> d\<lparr>ofd_pos := 0\<rparr>),
                disk_free := disk_free os - accepted os (n - length c),
                heap_free := heap_free os - (n - length c),
                events := events os @ [Write fd (n - length c)]\<rparr>))"
  using assms
  by (auto simp: resize_def sys_lseek_def sys_write_def new_char_def Let_def heap_bytes_def
      accepted_def min_def)

lemma open_existing:
  assumes "files os file = Some c"
  shows "open file n os =
     (if n \<le> length c then
        Inr ((int (lowest_fd os), if n = 0 then length c else n),
             os\<lparr>fds := (fds os)(int (lowest_fd os) \<mapsto> \<lparr>ofd_path = file, ofd_pos = 0\<rparr>),
                next_fd := max (next_fd os) (Suc (lowest_fd os))\<rparr>)
      else if heap_free os < n - length c then Inl bad_alloc
      else if write_ret os (n - length c) < 0 \<or> disk_free os = 0
        then Inl (syserr ''persistent::resize'')
      else Inr ((int (lowest_fd os), length c),
             os\<lparr>files := (files os)(file \<mapsto>
                     c @ take (accepted os (n - length c)) (heap_bytes (n - length c) os)),
                fds := (fds os)(int (lowest_fd os) \<mapsto> \<lparr>ofd_path = file, ofd_pos = 0\<rparr>),
                next_fd := max (next_fd os) (Suc (lowest_fd os)),
                disk_free := disk_free os - accepted os (n - length c),
                heap_free := heap_free os - (n - length c),
                events := events os @ [Write (int (lowest_fd os)) (n - length c)]\<rparr>))"
proof -
  let ?os1 = "snd (new_fd file os)"
  let ?d = "\<lparr>ofd_path = file, ofd_pos = 0\<rparr>"
  have o: "open file n os =
      (case resize (int (lowest_fd os)) n ?os1 of
         Inl e \<Rightarrow> Inl e
       | Inr (r, os4) \<Rightarrow> Inr ((int (lowest_fd os), r), os4))"
    using assms by (simp add: open_def sys_open_excl_def sys_open_def new_fd_def)
  have f: "fds ?os1 (int (lowest_fd os)) = Some ?d" "files ?os1 (ofd_path ?d) = Some c"
    using assms by (simp_all add: new_fd_def)
  show ?thesis
    unfolding o resize_eq [OF f]
    by (simp add: new_fd_def heap_bytes_def accepted_def)
qed

lemma open_fresh:
  assumes "files os file = None"
  shows "open file n os =
     (if n = 0 then Inl (syserr ''persistent: %s'')
      else if heap_free os < n then Inl bad_alloc
      else if write_ret os n < 0 \<or> disk_free os = 0 then Inl (syserr ''persistent::resize'')
      else Inr ((int (lowest_fd os), 0),
             os\<lparr>files := (files os)(file \<mapsto> take (accepted os n) (heap_bytes n os)),
                fds := (fds os)(int (lowest_fd os) \<mapsto> \<lparr>ofd_path = file, ofd_pos = 0\<rparr>),
                next_fd := max (next_fd os) (Suc (lowest_fd os)),
                disk_free := disk_free os - accepted os n,
                heap_free := heap_free os - n,
                events := events os @ [Write (int (lowest_fd os)) n]\<rparr>))"
proof (cases "n = 0")
  case True
  then show ?thesis using assms by (simp add: open_def sys_open_def)
next
  case False
  let ?os0 = "os\<lparr>files := (files os)(file \<mapsto> [])\<rparr>"
  let ?os1 = "snd (new_fd file ?os0)"
  let ?d = "\<lparr>ofd_path = file, ofd_pos = 0\<rparr>"
  have lf: "lowest_fd ?os0 = lowest_fd os"
    by (simp add: lowest_fd_def split: option.split)
  have o: "open file n os =
      (case resize (int (lowest_fd os)) n ?os1 of
         Inl e \<Rightarrow> Inl e
       | Inr (r, os4) \<Rightarrow> Inr ((int (lowest_fd os), r), os4))"
    using assms False by (simp add: open_def sys_open_excl_def new_fd_def lf)
  have f: "fds ?os1 (int (lowest_fd os)) = Some ?d" "files ?os1 (ofd_path ?d) = Some []"
    by (simp_all add: new_fd_def lf)
  show ?thesis
    unfolding o resize_eq [OF f]
    using False by (simp add: new_fd_def heap_bytes_def accepted_def lf)
qed

lemma os_fd3_facts:
  "fds os_fd3 3 = Some \<lparr>ofd_path = ''p'', ofd_pos = 0\<rparr>"
  "files os_fd3 (ofd_path \<lparr>ofd_path = ''p'', ofd_pos = 0\<rparr>) = Some [1, 2, 3]"
  "fds (os_fd3\<lparr>write_ret := w\<rparr>) 3 = Some \<lparr>ofd_path = ''p'', ofd_pos = 0\<rparr>"
  "files (os_fd3\<lparr>write_ret := w\<rparr>) (ofd_path \<lparr>ofd_path = ''p'', ofd_pos = 0\<rparr>) = Some [1, 2, 3]"
  "heap_free os_fd3 = 1000" "disk_free os_fd3 = 100" "write_ret os_fd3 = int"
  by (simp_all add: os_fd3_def os_empty_def)

text \<open>
  C4, as amended. On a descriptor open on a file of length \<open>length c\<close>, whatever
  \<open>resize\<close> returns as the initialised length is the length of the file when the
  requested size is 0, and the smaller of the length and the requested size otherwise;
  and it does return that value when the file is long enough, and also when the buffer
  can be allocated, the write does not fail and the disk has room.
\<close>

theorem resize_returns_initialized_length:
  assumes "fds os fd = Some d" and "files os (ofd_path d) = Some c"
  shows "(\<forall>r os'. resize fd n os = Inr (r, os') \<longrightarrow>
            r = (if n = 0 then length c else min (length c) n))
       \<and> (n \<le> length c
            \<or> (n - length c \<le> heap_free os \<and> 0 \<le> write_ret os (n - length c)
                \<and> 0 < disk_free os) \<longrightarrow>
            (\<exists>os'. resize fd n os = Inr (if n = 0 then length c else min (length c) n, os')))"
  unfolding resize_eq [OF assms] by (auto simp: min_def)

theorem resize_returns_initialized_length_witness:
  "fds os_fd3 3 = Some \<lparr>ofd_path = ''p'', ofd_pos = 0\<rparr>
   \<and> files os_fd3 ''p'' = Some [1, 2, 3]
   \<and> (\<exists>os'. resize 3 2 os_fd3 = Inr (2, os'))
   \<and> (\<exists>os'. resize 3 5 os_fd3 = Inr (3, os'))"
proof -
  note d = os_fd3_facts(1) and c = os_fd3_facts(2)
  show ?thesis
    using resize_returns_initialized_length [OF d c, of 2]
      resize_returns_initialized_length [OF d c, of 5] d c
    by (simp add: numeral_2_eq_2 numeral_3_eq_3 os_fd3_facts)
qed

text \<open>
  C4, as stated, fails for a requested size of 0: on a file of three bytes
  \<open>resize\<close> returns 3, the length of the file, and not \<open>min 3 0\<close>.
\<close>

theorem resize_zero_request_counterexample:
  "map_sum id fst (resize 3 0 os_fd3) = Inr (length [1, 2, 3 :: byte])
   \<and> map_sum id fst (resize 3 0 os_fd3) \<noteq> Inr (min (length [1, 2, 3 :: byte]) 0)"
  unfolding resize_eq [OF os_fd3_facts(1,2)] by simp

text \<open>
  C7, as amended. When the file is shorter than the requested size, the buffer can be
  allocated and the one call of \<^verbatim>\<open>write\<close> transfers the whole request, \<open>resize\<close>
  returns and has appended exactly \<open>n - length c\<close> bytes to the file; every other
  file and the bytes already there are as before. The appended bytes are the content of
  the buffer \<^verbatim>\<open>new char[n-off]\<close>, which the code never initialises.
\<close>

theorem resize_extends_with_uninitialised_buffer:
  assumes "fds os fd = Some d" and "files os (ofd_path d) = Some c"
    and "length c < n" and "n - length c \<le> heap_free os"
    and "accepted os (n - length c) = n - length c"
  shows "\<exists>os'. resize fd n os = Inr (length c, os')
           \<and> files os' = (files os)(ofd_path d \<mapsto> c @ heap_bytes (n - length c) os)
           \<and> events os' = events os @ [Write fd (n - length c)]"
proof -
  from assms(3,5) have "0 \<le> write_ret os (n - length c)" "0 < disk_free os"
    by (auto simp: accepted_def min_def split: if_splits)
  with assms(3,4,5) show ?thesis
    unfolding resize_eq [OF assms(1,2)] by simp
qed

theorem resize_extends_with_uninitialised_buffer_witness:
  "fds os_fd3 3 = Some \<lparr>ofd_path = ''p'', ofd_pos = 0\<rparr>
   \<and> files os_fd3 ''p'' = Some [1, 2, 3]
   \<and> length [1, 2, 3 :: byte] < 5 \<and> 5 - length [1, 2, 3 :: byte] \<le> heap_free os_fd3
   \<and> accepted os_fd3 (5 - length [1, 2, 3 :: byte]) = 5 - length [1, 2, 3 :: byte]
   \<and> (\<exists>os'. resize 3 5 os_fd3 = Inr (3, os')
         \<and> files os' = (files os_fd3)(''p'' \<mapsto> [1, 2, 3] @ heap_bytes 2 os_fd3)
         \<and> events os' = events os_fd3 @ [Write 3 2])"
proof -
  note d = os_fd3_facts(1) and c = os_fd3_facts(2)
  have l: "length [1, 2, 3 :: byte] < 5"
    by simp
  have h: "5 - length [1, 2, 3 :: byte] \<le> heap_free os_fd3"
    by (simp add: os_fd3_facts)
  have a: "accepted os_fd3 (5 - length [1, 2, 3 :: byte]) = 5 - length [1, 2, 3 :: byte]"
    by (simp add: accepted_def os_fd3_facts)
  show ?thesis
    using resize_extends_with_uninitialised_buffer [OF d c l h a] d c l h a
    by (simp add: numeral_2_eq_2 numeral_3_eq_3)
qed

text \<open>
  C7, as stated, fails. With \<open>0xAA\<close> in uninitialised memory, extending a file of
  three bytes to five appends two bytes \<open>0xAA\<close>, not two zero bytes; and when the
  call of \<^verbatim>\<open>write\<close> transfers one byte, with room for 100 on the disk, the file gets
  one byte, not two, and \<open>resize\<close> still returns.
\<close>

theorem resize_appends_zero_bytes_counterexample:
  "files (snd (projr (resize 3 5 os_fd3))) ''p'' = Some [1, 2, 3, 170, 170]
   \<and> [1, 2, 3, 170, 170] \<noteq> [1, 2, 3] @ replicate (5 - 3) (0 :: byte)
   \<and> disk_free (os_fd3\<lparr>write_ret := (\<lambda>k. 1)\<rparr>) = 100
   \<and> map_sum id fst (resize 3 5 (os_fd3\<lparr>write_ret := (\<lambda>k. 1)\<rparr>)) = Inr 3
   \<and> files (snd (projr (resize 3 5 (os_fd3\<lparr>write_ret := (\<lambda>k. 1)\<rparr>)))) ''p''
        = Some [1, 2, 3, 170]"
proof -
  have "replicate (5 - 3) (0 :: byte) = [0, 0]"
    by (simp add: numeral_2_eq_2)
  then have z: "[1, 2, 3, 170, 170] \<noteq> [1, 2, 3] @ replicate (5 - 3) (0 :: byte)"
    by simp
  have r: "files (snd (projr (resize 3 5 os_fd3))) ''p'' = Some [1, 2, 3, 170, 170]"
    "disk_free (os_fd3\<lparr>write_ret := (\<lambda>k. 1)\<rparr>) = 100"
    "map_sum id fst (resize 3 5 (os_fd3\<lparr>write_ret := (\<lambda>k. 1)\<rparr>)) = Inr 3"
    "files (snd (projr (resize 3 5 (os_fd3\<lparr>write_ret := (\<lambda>k. 1)\<rparr>)))) ''p''
        = Some [1, 2, 3, 170]"
    unfolding resize_eq [OF os_fd3_facts(1,2)] resize_eq [OF os_fd3_facts(3,4)]
    by (simp_all add: os_fd3_def os_empty_def heap_bytes_def accepted_def upt_rec)
  show ?thesis
    using z r by blast
qed

section \<open>Properties of mmap\<close>

text \<open>
  C8 does not hold of the code. A mapping of length 0 fails in the system call, which
  returns \<^verbatim>\<open>MAP_FAILED\<close>; \<open>mmap\<close> tests the result against the null pointer only,
  raises nothing and returns \<^verbatim>\<open>MAP_FAILED\<close> as the address. The constructor of
  \<open>alloc\<close> from a path alone reaches this on an empty file and keeps \<^verbatim>\<open>MAP_FAILED\<close>
  as its \<^verbatim>\<open>_map\<close>.
\<close>

theorem mmap_failure_returned_as_address:
  "sys_mmap 0 fd os = (MAP_FAILED, os) \<and> mmap 0 fd os = Inr (MAP_FAILED, os)
   \<and> map_sum id fst (alloc_ctor_file ''p'' (os_with [])) =
        Inr \<lparr>a_map = MAP_FAILED, a_init = 0, a_size = 0\<rparr>"
  by (simp add: mmap_def sys_mmap_def alloc_ctor_file_def open_existing os_with_def sys_close_def
      split: option.split)

section \<open>Properties of the constructors of memory and alloc\<close>

text \<open>
  What the sized constructor of \<open>alloc\<close> returns, for every state of the files: the
  file is created or extended by what the write transfers, mapped, and the descriptor
  closed. \<open>memory\<close> does the same without the size field.
\<close>

lemma alloc_ctor_eq:
  "alloc_ctor n file os =
     (if files os file = None \<and> n = 0 then Inl (error file (syserr ''persistent: %s''))
      else if length (bytes_of os file) < n \<and> heap_free os < n - length (bytes_of os file)
        then Inl (error file bad_alloc)
      else if length (bytes_of os file) < n
              \<and> (write_ret os (n - length (bytes_of os file)) < 0 \<or> disk_free os = 0)
        then Inl (error file (syserr ''persistent::resize''))
      else
        Inr (\<lparr>a_map = (if n = 0 then MAP_FAILED else Ptr (next_map os) 0),
              a_init = (if n = 0 then length (bytes_of os file)
                        else min (length (bytes_of os file)) n),
              a_size = n\<rparr>,
             os\<lparr>files :=
                  (if length (bytes_of os file) < n
                   then (files os)(file \<mapsto> bytes_of os file
                           @ take (accepted os (n - length (bytes_of os file)))
                               (heap_bytes (n - length (bytes_of os file)) os))
                   else files os),
                fds := (fds os)(int (lowest_fd os) := None),
                next_fd := max (next_fd os) (Suc (lowest_fd os)),
                maps := (if n = 0 then maps os
                         else (maps os)(next_map os \<mapsto> \<lparr>mp_path = file, mp_len = n\<rparr>)),
                next_map := (if n = 0 then next_map os else Suc (next_map os)),
                disk_free :=
                  (if length (bytes_of os file) < n
                   then disk_free os - accepted os (n - length (bytes_of os file))
                   else disk_free os),
                heap_free := heap_free os - (n - length (bytes_of os file)),
                events := events os @
                  (if length (bytes_of os file) < n
                   then [Write (int (lowest_fd os)) (n - length (bytes_of os file))] else [])\<rparr>))"
proof (cases "files os file")
  case None
  then show ?thesis
    by (simp add: alloc_ctor_def open_fresh bytes_of_def mmap_def sys_mmap_def sys_close_def)
next
  case (Some c)
  then show ?thesis
    by (simp add: alloc_ctor_def open_existing bytes_of_def mmap_def sys_mmap_def sys_close_def
        min_def)
qed

lemma alloc_ctor_file_existing:
  assumes "files os file = Some c"
  shows "alloc_ctor_file file os =
     Inr (\<lparr>a_map = (if c = [] then MAP_FAILED else Ptr (next_map os) 0),
           a_init = length c, a_size = length c\<rparr>,
          os\<lparr>fds := (fds os)(int (lowest_fd os) := None),
             next_fd := max (next_fd os) (Suc (lowest_fd os)),
             maps := (if c = [] then maps os
                      else (maps os)(next_map os \<mapsto> \<lparr>mp_path = file, mp_len = length c\<rparr>)),
             next_map := (if c = [] then next_map os else Suc (next_map os))\<rparr>)"
  using assms
  by (simp add: alloc_ctor_file_def open_existing mmap_def sys_mmap_def sys_close_def)


section \<open>Properties of stores and loads\<close>

lemma page_size_pos: "0 < page_size"
  by (simp add: page_size_def)

lemma le_page_up: "n \<le> page_up n"
proof -
  have "n + page_size - 1 < (n + page_size - 1) div page_size * page_size + page_size"
    using page_size_pos
    by (metis add.commute dividend_less_div_times mult.commute)
  then show ?thesis
    by (simp add: page_up_def)
qed

lemma page_up_mono: "a \<le> b \<Longrightarrow> page_up a \<le> page_up b"
  by (simp add: page_up_def div_le_mono)

lemma page_up_size_t: "n < 2 ^ 64 \<Longrightarrow> page_up n \<le> 2 ^ 64"
proof -
  assume "n < 2 ^ 64"
  then have "n + page_size - 1 < (2 ^ 52 + 1) * page_size"
    by (simp add: page_size_def)
  then have "(n + page_size - 1) div page_size < 2 ^ 52 + 1"
    using page_size_pos by (simp only: less_mult_imp_div_less)
  then have "(n + page_size - 1) div page_size \<le> 2 ^ 52"
    by simp
  then have "(n + page_size - 1) div page_size * page_size \<le> 2 ^ 52 * page_size"
    by (intro mult_le_mono1) simp
  then show ?thesis
    by (simp add: page_up_def page_size_def)
qed

lemma view_events [simp]: "view (os\<lparr>events := e\<rparr>) = view os"
  by (simp add: fun_eq_iff view_def split: option.split)

lemma view_store:
  assumes "files os f = Some c"
  shows "view (os\<lparr>files := (files os)(f \<mapsto>
              take off c @ take (length c - off) bs @ drop (off + length bs) c),
            tail := (tail os)(f :=
              (\<lambda>i. if length c \<le> i \<and> off \<le> i \<and> i < off + length bs
                   then bs ! (i - off) else tail os f i))\<rparr>) g j
         = (if g = f \<and> off \<le> j \<and> j < off + length bs then bs ! (j - off) else view os g j)"
proof (cases "g = f")
  case False
  then show ?thesis
    by (simp add: view_def split: option.split)
next
  case True
  let ?c1 = "take off c @ take (length c - off) bs @ drop (off + length bs) c"
  have len: "length ?c1 = length c"
    by (simp add: min_def)
  show ?thesis
  proof (cases "j < length c")
    case False
    with True assms len show ?thesis
      by (simp add: view_def)
  next
    case l: True
    have n: "?c1 ! j = (if off \<le> j \<and> j < off + length bs then bs ! (j - off) else c ! j)"
    proof (cases "j < off")
      case True
      with l show ?thesis
        by (simp add: nth_append)
    next
      case False
      show ?thesis
      proof (cases "j < off + length bs")
        case True
        with False l have "j - off < length bs" "j - off < length c - off"
          by simp_all
        with True False l show ?thesis
          by (simp add: nth_append min_def)
      next
        case b: False
        with False l have "\<not> j - off < length bs" "length bs \<le> length c - off"
          "j - off - length bs = j - (off + length bs)"
          by simp_all
        with False l have "?c1 ! j = drop (off + length bs) c ! (j - (off + length bs))"
          by (simp add: nth_append min_def)
        also have "\<dots> = c ! j"
          using b l by simp
        finally show ?thesis
          using b by simp
      qed
    qed
    from True assms len l n show ?thesis
      by (simp add: view_def)
  qed
qed

lemma store_Inr_D:
  assumes "store p bs os = Inr os1"
  obtains m off mp c where "p = Ptr m off" "maps os m = Some mp" "files os (mp_path mp) = Some c"
    "off + length bs \<le> page_up (mp_len mp)" "off + length bs \<le> page_up (length c)"
    "os1 = os\<lparr>files := (files os)(mp_path mp \<mapsto>
              take off c @ take (length c - off) bs @ drop (off + length bs) c),
            tail := (tail os)(mp_path mp :=
              (\<lambda>i. if length c \<le> i \<and> off \<le> i \<and> i < off + length bs
                   then bs ! (i - off) else tail os (mp_path mp) i))\<rparr>"
  using assms
  by (auto simp: store_def split: ptr.splits option.splits if_splits)

text \<open>
  One round of the construction loop: the element is stored at its place, the file
  keeps its length and the bytes before the element, and the mapping shows the
  constructed bytes there and everything else as before.
\<close>

lemma placement_new_Inr_D:
  assumes "placement_new T (Ptr m off) args os = Inr os1"
    and "maps os m = Some mp" and "files os (mp_path mp) = Some c"
  shows "\<exists>c1. off + sizeof T \<le> page_up (mp_len mp) \<and> off + sizeof T \<le> page_up (length c)
    \<and> files os1 = (files os)(mp_path mp \<mapsto> c1) \<and> length c1 = length c
    \<and> take off c1 = take off c
    \<and> maps os1 = maps os \<and> events os1 = events os @ [Constructed (Ptr m off) args]
    \<and> (\<forall>g j. view os1 g j =
        (if g = mp_path mp \<and> off \<le> j \<and> j < off + sizeof T then rep T args ! (j - off)
         else view os g j))"
proof -
  from assms(1) obtain os0 where s: "store (Ptr m off) (rep T args) os = Inr os0"
    and o: "os1 = os0\<lparr>events := events os0 @ [Constructed (Ptr m off) args]\<rparr>"
    by (auto simp: placement_new_def split: sum.splits)
  let ?c1 = "take off c @ take (length c - off) (rep T args) @ drop (off + sizeof T) c"
  let ?os0 = "os\<lparr>files := (files os)(mp_path mp \<mapsto> ?c1),
            tail := (tail os)(mp_path mp :=
              (\<lambda>i. if length c \<le> i \<and> off \<le> i \<and> i < off + sizeof T
                   then rep T args ! (i - off) else tail os (mp_path mp) i))\<rparr>"
  from s assms(2,3) have b: "off + sizeof T \<le> page_up (mp_len mp)"
    "off + sizeof T \<le> page_up (length c)" and os0: "os0 = ?os0"
    by (auto elim!: store_Inr_D)
  have v: "view os1 g j = view ?os0 g j" for g j
    by (simp only: o os0 view_events)
  have "view os1 g j =
        (if g = mp_path mp \<and> off \<le> j \<and> j < off + sizeof T then rep T args ! (j - off)
         else view os g j)" for g j
    unfolding v using view_store [OF assms(3), of off "rep T args" g j] by simp
  then show ?thesis
    by (intro exI [of _ ?c1]) (simp add: b o os0 min_def)
qed

lemma placement_new_events:
  "placement_new T p args os = Inr os1 \<Longrightarrow> events os1 = events os @ [Constructed p args]"
  by (auto simp: placement_new_def elim!: store_Inr_D split: sum.splits)

lemma load_eq:
  assumes "maps os m = Some mp" and "files os (mp_path mp) = Some c"
    and "off + n \<le> page_up (mp_len mp)" and "off + n \<le> page_up (length c)"
  shows "load (Ptr m off) n os = Inr (map (view os (mp_path mp)) [off..<off + n])"
  using assms by (simp add: load_def)


lemma view_rep:
  assumes "\<And>j. off \<le> j \<Longrightarrow> j < off + sizeof T \<Longrightarrow> f j = rep T args ! (j - off)"
  shows "map f [off..<off + sizeof T] = rep T args"
proof (rule nth_equalityI)
  show "length (map f [off..<off + sizeof T]) = length (rep T args)"
    by simp
  fix k
  assume "k < length (map f [off..<off + sizeof T])"
  then have "k < sizeof T"
    by simp
  then show "map f [off..<off + sizeof T] ! k = rep T args ! k"
    using assms [of "off + k"] by simp
qed

lemma rep_nth: "k < sizeof T \<Longrightarrow> rep T args ! k = ctor T args k"
  by (simp add: rep_def)

lemma mod_in_element:
  assumes "i * s \<le> j" and "j < i * s + s"
  shows "j mod s = j - i * (s :: nat)"
proof -
  from assms have "j = (j - i * s) + i * s" "j - i * s < s"
    by simp_all
  then show ?thesis
    by (metis mod_less mod_mult_self1 mult.commute)
qed

lemma rep_T4: "rep T4 a = [of_nat a, of_nat (a + 1), of_nat (a + 2), of_nat (a + 3)]"
  by (simp add: rep_def T4_def upt_rec)

lemma T4_facts: "0 < sizeof T4" "sizeof T4 = 4"
  by (simp_all add: T4_def)

lemma os_with_facts:
  "files (os_with c) ''p'' = Some c" "bytes_of (os_with c) ''p'' = c"
  "bytes_of (os_with c\<lparr>disk_free := d\<rparr>) ''p'' = c"
  "files (os_with c\<lparr>disk_free := d\<rparr>) ''p'' = Some c"
  "events (os_with c) = []" "events (os_with c\<lparr>disk_free := d\<rparr>) = []"
  "heap_free (os_with c) = 1000" "heap_free (os_with c\<lparr>disk_free := d\<rparr>) = 1000"
  "write_ret (os_with c) = int" "write_ret (os_with c\<lparr>disk_free := d\<rparr>) = int"
  "disk_free (os_with c) = 100" "disk_free (os_with c\<lparr>disk_free := d\<rparr>) = d"
  by (simp_all add: os_with_def os_empty_def bytes_of_def)

section \<open>Properties of object\<close>







section \<open>Properties of the construction loop\<close>

lemma construct_loop_events:
  "construct_loop T po args i n os = Inr os' \<Longrightarrow>
   events os' = events os @ map (\<lambda>j. Constructed (ptr_add po (j * sizeof T)) args) [i..<n]"
proof (induction T po args i n os rule: construct_loop.induct)
  case (1 T po args i n os)
  show ?case
  proof (cases "i < n")
    case False
    with "1.prems" show ?thesis
      by (simp add: construct_loop.simps)
  next
    case True
    with "1.prems" obtain os1 where
      p: "placement_new T (ptr_add po (i * sizeof T)) args os = Inr os1"
      and l: "construct_loop T po args (Suc i) n os1 = Inr os'"
      by (subst (asm) construct_loop.simps) (auto split: sum.splits)
    from "1.IH" [OF True p l] placement_new_events [OF p] True show ?thesis
      by (simp add: upt_conv_Cons)
  qed
qed

text \<open>
  What a returning run of the loop from element \<open>i\<close> has done: only the file of the
  mapping has changed, it keeps its length and the bytes before element \<open>i\<close>; the
  mapping shows the constructed bytes in the elements \<open>i, \<dots>, n - 1\<close> and everything
  else as before; and when the loop has run at all, every element lies in the pages of
  the mapping and of the file.
\<close>

lemma construct_loop_Inr:
  "construct_loop T (Ptr m 0) args i n os = Inr os' \<Longrightarrow>
   maps os m = Some mp \<Longrightarrow> files os (mp_path mp) = Some c \<Longrightarrow>
   maps os' = maps os
   \<and> (\<exists>c'. files os' = (files os)(mp_path mp \<mapsto> c') \<and> length c' = length c
          \<and> take (i * sizeof T) c' = take (i * sizeof T) c)
   \<and> (\<forall>g j. view os' g j =
          (if g = mp_path mp \<and> i * sizeof T \<le> j \<and> j < n * sizeof T
           then ctor T args (j mod sizeof T) else view os g j))
   \<and> (i < n \<longrightarrow> n * sizeof T \<le> page_up (mp_len mp) \<and> n * sizeof T \<le> page_up (length c))"
proof (induction "n - i" arbitrary: i os c)
  case 0
  then have n: "\<not> i < n"
    by simp
  with "0.prems" have os': "os' = os"
    by (simp add: construct_loop.simps)
  from n have "n * sizeof T \<le> i * sizeof T"
    by (intro mult_le_mono1) simp
  then have v: "\<not> (i * sizeof T \<le> j \<and> j < n * sizeof T)" for j
    by linarith
  have f: "files os = (files os)(mp_path mp \<mapsto> c)"
    using "0.prems"(3) by (simp add: fun_eq_iff)
  have e: "\<exists>c'. files os = (files os)(mp_path mp \<mapsto> c') \<and> length c' = length c
          \<and> take (i * sizeof T) c' = take (i * sizeof T) c"
    using f by (intro exI [of _ c]) simp
  show ?case
    unfolding os'
  proof (intro conjI)
    show "\<forall>g j. view os g j =
            (if g = mp_path mp \<and> i * sizeof T \<le> j \<and> j < n * sizeof T
             then ctor T args (j mod sizeof T) else view os g j)"
      using v by auto
    show "i < n \<longrightarrow>
        n * sizeof T \<le> page_up (mp_len mp) \<and> n * sizeof T \<le> page_up (length c)"
      using n by simp
  qed (simp, rule e)
next
  case (Suc k)
  then have lt: "i < n"
    by simp
  let ?s = "sizeof T"
  from Suc.prems(1) lt obtain os1 where
    p: "placement_new T (Ptr m (i * ?s)) args os = Inr os1"
    and l: "construct_loop T (Ptr m 0) args (Suc i) n os1 = Inr os'"
    by (subst (asm) construct_loop.simps) (auto split: sum.splits)
  obtain c1 where
    b: "i * ?s + ?s \<le> page_up (mp_len mp)" "i * ?s + ?s \<le> page_up (length c)"
    and f1: "files os1 = (files os)(mp_path mp \<mapsto> c1)"
    and len1: "length c1 = length c" and pre1: "take (i * ?s) c1 = take (i * ?s) c"
    and m1: "maps os1 = maps os"
    and e1: "events os1 = events os @ [Constructed (Ptr m (i * ?s)) args]"
    and v1: "\<And>g j. view os1 g j =
        (if g = mp_path mp \<and> i * ?s \<le> j \<and> j < i * ?s + ?s then rep T args ! (j - i * ?s)
         else view os g j)"
    using placement_new_Inr_D [OF p Suc.prems(2,3)] by blast
  have k: "k = n - Suc i"
    using Suc.hyps(2) by simp
  have m1': "maps os1 m = Some mp" and f1': "files os1 (mp_path mp) = Some c1"
    using Suc.prems(2) by (simp_all add: m1 f1)
  from Suc.hyps(1) [OF k l m1' f1'] obtain c' where
    m': "maps os' = maps os1"
    and f': "files os' = (files os1)(mp_path mp \<mapsto> c')" "length c' = length c1"
    and pre': "take (Suc i * ?s) c' = take (Suc i * ?s) c1"
    and v': "\<And>g j. view os' g j =
          (if g = mp_path mp \<and> Suc i * ?s \<le> j \<and> j < n * ?s
           then ctor T args (j mod ?s) else view os1 g j)"
    and b': "Suc i < n \<Longrightarrow> n * ?s \<le> page_up (mp_len mp) \<and> n * ?s \<le> page_up (length c1)"
    by blast
  have "take (i * ?s) (take (Suc i * ?s) c') = take (i * ?s) (take (Suc i * ?s) c1)"
    by (simp only: pre')
  then have pre: "take (i * ?s) c' = take (i * ?s) c"
    by (simp add: min_def pre1)
  have le: "Suc i * ?s \<le> n * ?s"
    using lt by (intro mult_le_mono1) simp
  have v: "view os' g j =
          (if g = mp_path mp \<and> i * ?s \<le> j \<and> j < n * ?s
           then ctor T args (j mod ?s) else view os g j)" for g j
  proof (cases "g = mp_path mp \<and> i * ?s \<le> j \<and> j < i * ?s + ?s")
    case True
    then have "j - i * ?s < ?s"
      by linarith
    moreover from True have "j mod ?s = j - i * ?s"
      by (simp add: mod_in_element)
    moreover from True le have "j < n * ?s"
      by simp
    ultimately have "j mod ?s = j - i * ?s" "j - i * ?s < ?s" "j < n * ?s"
      by simp_all
    with True le show ?thesis
      by (simp add: v' v1 rep_nth)
  next
    case False
    then show ?thesis
      using le by (auto simp: v' v1)
  qed
  have bound: "n * ?s \<le> page_up (mp_len mp) \<and> n * ?s \<le> page_up (length c)"
  proof (cases "Suc i < n")
    case True
    with b' len1 show ?thesis
      by simp
  next
    case False
    with lt have "n = Suc i"
      by simp
    with b show ?thesis
      by simp
  qed
  show ?case
    using m' m1 f' f1 len1 pre v bound
    by (auto intro!: exI [of _ c'])
qed

lemma construct_loop_returns:
  "maps os m = Some mp \<Longrightarrow> files os (mp_path mp) = Some c \<Longrightarrow>
   n * sizeof T \<le> page_up (mp_len mp) \<Longrightarrow> n * sizeof T \<le> page_up (length c) \<Longrightarrow>
   \<exists>os'. construct_loop T (Ptr m 0) args i n os = Inr os'"
proof (induction "n - i" arbitrary: i os c)
  case 0
  then show ?case
    by (simp add: construct_loop.simps)
next
  case (Suc k)
  then have lt: "i < n"
    by simp
  then have "Suc i * sizeof T \<le> n * sizeof T"
    by (intro mult_le_mono1) simp
  with Suc.prems have b: "i * sizeof T + sizeof T \<le> page_up (mp_len mp)"
    "i * sizeof T + sizeof T \<le> page_up (length c)"
    by simp_all
  from Suc.prems(1,2) b obtain os1 where
    p: "placement_new T (Ptr m (i * sizeof T)) args os = Inr os1"
    by (simp add: placement_new_def store_def)
  from placement_new_Inr_D [OF p Suc.prems(1,2)] obtain c1 where
    f1: "files os1 = (files os)(mp_path mp \<mapsto> c1)" "length c1 = length c"
    and m1: "maps os1 = maps os"
    by blast
  have "\<exists>os'. construct_loop T (Ptr m 0) args (Suc i) n os1 = Inr os'"
    using Suc.hyps(2) Suc.prems
    by (intro Suc.hyps(1) [of "Suc i" os1 c1]) (simp_all add: f1 m1)
  with lt p show ?case
    by (subst construct_loop.simps) simp
qed

lemma construct_loop_MAP_FAILED:
  "i < n \<Longrightarrow> construct_loop T MAP_FAILED args i n os = Inl segv"
  by (subst construct_loop.simps) (simp add: placement_new_def store_def)

lemma constructions_Constructed:
  "constructions (map (\<lambda>j. Constructed (ptr_add p (j * s)) args) js)
     = map (\<lambda>i. (ptr_add p (i * s), args)) js"
  by (induction js) simp_all

section \<open>Properties of array\<close>

text \<open>
  What a returning sized constructor of \<open>array\<close> has done. The file is the old one,
  extended by what the write has transferred and changed from the first element
  constructed on; the elements from \<open>initialized() div sizeof T\<close> on are constructed in
  order, and the mapping shows each of them as built.
\<close>

lemma array_ctor_effect:
  assumes sz: "0 < sizeof T" and ok: "array_ctor T n file args os = Inr (a, os')"
  shows "r_size a = n \<and> r_po a = a_map a \<and> a_size a = size_t (n * sizeof T)
    \<and> a_init a = (if size_t (n * sizeof T) = 0 then length (bytes_of os file)
                  else min (length (bytes_of os file)) (size_t (n * sizeof T)))
    \<and> constructions (events os') = constructions (events os) @
         map (\<lambda>i. (ptr_add (a_map a) (i * sizeof T), args)) [a_init a div sizeof T ..< n]
    \<and> (\<exists>c'. files os' = (files os)(file \<mapsto> c')
          \<and> length c' = length (bytes_of os file)
               + accepted os (size_t (n * sizeof T) - length (bytes_of os file))
          \<and> take (a_init a div sizeof T * sizeof T) c'
              = take (a_init a div sizeof T * sizeof T) (bytes_of os file))
    \<and> (a_init a div sizeof T < n \<longrightarrow>
          n * sizeof T < 2 ^ 64
          \<and> (\<forall>i. a_init a div sizeof T \<le> i \<and> i < n \<longrightarrow>
                load (ptr_add (a_map a) (i * sizeof T)) (sizeof T) os' = Inr (rep T args)))"
proof -
  let ?s = "sizeof T"
  let ?B = "size_t (n * ?s)"
  let ?old = "bytes_of os file"
  let ?L = "length ?old"
  let ?c1 = "?old @ take (accepted os (?B - ?L)) (heap_bytes (?B - ?L) os)"
  let ?mp = "\<lparr>mp_path = file, mp_len = ?B\<rparr>"
  from ok obtain base os1 where
    b: "alloc_ctor ?B file os = Inr (base, os1)"
    and l: "construct_loop T (a_map base) args (a_init base div ?s) n os1 = Inr os'"
    and a: "a = \<lparr>a_map = a_map base, a_init = a_init base, a_size = a_size base,
          r_size = n, r_po = a_map base\<rparr>"
    by (auto simp: array_ctor_def Let_def alloc_initialized_def split: sum.splits)
  from b have am: "a_map base = (if ?B = 0 then MAP_FAILED else Ptr (next_map os) 0)"
    and ai: "a_init base = (if ?B = 0 then ?L else min ?L ?B)"
    and as: "a_size base = ?B"
    and e1: "constructions (events os1) = constructions (events os)"
    and m1: "?B \<noteq> 0 \<Longrightarrow> maps os1 (next_map os) = Some ?mp"
    by (auto simp: alloc_ctor_eq split: if_splits)
  from b have f1: "files os1 = (files os)(file \<mapsto> ?c1)"
    by (cases "files os file")
      (auto simp: alloc_ctor_eq bytes_of_def accepted_def fun_eq_iff split: if_splits)
  let ?b = "a_init base div ?s"
  have bs: "?b * ?s \<le> ?L"
  proof -
    have "?b * ?s \<le> a_init base"
      by simp
    also have "\<dots> \<le> ?L"
      by (simp add: ai)
    finally show ?thesis .
  qed
  have ev: "constructions (events os') = constructions (events os) @
         map (\<lambda>i. (ptr_add (a_map base) (i * ?s), args)) [?b ..< n]"
    using construct_loop_events [OF l] by (simp add: e1 constructions_Constructed)
  have lenc1: "length ?c1 = ?L + accepted os (?B - ?L)"
    by (simp add: accepted_def)
  have rest: "(\<exists>c'. files os' = (files os)(file \<mapsto> c')
          \<and> length c' = ?L + accepted os (?B - ?L)
          \<and> take (?b * ?s) c' = take (?b * ?s) ?old)
    \<and> (?b < n \<longrightarrow>
          n * ?s < 2 ^ 64
          \<and> (\<forall>i. ?b \<le> i \<and> i < n \<longrightarrow>
                load (ptr_add (a_map base) (i * ?s)) ?s os' = Inr (rep T args)))"
  proof (cases "?b < n")
    case False
    with l have "os' = os1"
      by (simp add: construct_loop.simps)
    with False bs lenc1 show ?thesis
      by (auto simp: f1 intro!: exI [of _ ?c1])
  next
    case True
    have B0: "?B \<noteq> 0"
    proof
      assume "?B = 0"
      with l True am show False
        by (simp add: construct_loop_MAP_FAILED)
    qed
    with am have po: "a_map base = Ptr (next_map os) 0"
      by simp
    note m1 = m1 [OF B0]
    have f1': "files os1 (mp_path ?mp) = Some ?c1"
      by (simp add: f1)
    from construct_loop_Inr [OF l [unfolded po] m1 f1'] True obtain c' where
      m': "maps os' = maps os1"
      and f': "files os' = (files os1)(file \<mapsto> c')" "length c' = length ?c1"
      and pre: "take (?b * ?s) c' = take (?b * ?s) ?c1"
      and v: "\<And>g j. view os' g j =
          (if g = file \<and> ?b * ?s \<le> j \<and> j < n * ?s then ctor T args (j mod ?s)
           else view os1 g j)"
      and bd: "n * ?s \<le> page_up ?B" "n * ?s \<le> page_up (length ?c1)"
      by auto
    have "?B < 2 ^ 64"
      by (simp add: size_t_def)
    from page_up_size_t [OF this] bd(1) have le64: "n * ?s \<le> 2 ^ 64"
      by simp
    have lt64: "n * ?s < 2 ^ 64"
    proof (rule ccontr)
      assume "\<not> n * ?s < 2 ^ 64"
      with le64 have "n * ?s = 2 ^ 64"
        by simp
      then have "?B = 0"
        by (simp add: size_t_def)
      with B0 show False ..
    qed
    have m2: "maps os' (next_map os) = Some ?mp" and f2: "files os' (mp_path ?mp) = Some c'"
      by (simp_all add: m' m1 f')
    have ld: "load (ptr_add (a_map base) (i * ?s)) ?s os' = Inr (rep T args)"
      if i: "?b \<le> i" "i < n" for i
    proof -
      from i(2) have "Suc i * ?s \<le> n * ?s"
        by (intro mult_le_mono1) simp
      then have e: "i * ?s + ?s \<le> n * ?s"
        by simp
      from i(1) have s: "?b * ?s \<le> i * ?s"
        by (intro mult_le_mono1)
      have acc: "i * ?s + ?s \<le> page_up (mp_len ?mp)" "i * ?s + ?s \<le> page_up (length c')"
        using e bd f'(2) by simp_all
      have "map (view os' file) [i * ?s..<i * ?s + ?s] = rep T args"
      proof (rule view_rep)
        fix j
        assume j: "i * ?s \<le> j" "j < i * ?s + ?s"
        then have "j - i * ?s < ?s"
          by linarith
        moreover from j have "j mod ?s = j - i * ?s"
          by (rule mod_in_element)
        moreover from j e s have "?b * ?s \<le> j" "j < n * ?s"
          by linarith+
        ultimately show "view os' file j = rep T args ! (j - i * ?s)"
          by (simp add: v rep_nth)
      qed
      with load_eq [OF m2 f2 acc] show ?thesis
        by (simp add: po)
    qed
    have "take (?b * ?s) c' = take (?b * ?s) ?old"
      using bs by (simp add: pre)
    with f' lenc1 True lt64 ld show ?thesis
      by (auto simp: f1 intro!: exI [of _ c'])
  qed
  show ?thesis
    using rest ev by (simp add: a am ai as)
qed

text \<open>
  The sized constructor returns when the byte size fits \<^verbatim>\<open>size_t\<close> and either the file
  is long enough or the buffer can be allocated, the write does not fail and the file
  then reaches into the page of the last element.
\<close>

lemma array_ctor_returns:
  assumes "0 < n" and "0 < sizeof T" and "n * sizeof T < 2 ^ 64"
    and r: "n * sizeof T \<le> length (bytes_of os file) \<and> files os file \<noteq> None
      \<or> (length (bytes_of os file) < n * sizeof T
          \<and> n * sizeof T - length (bytes_of os file) \<le> heap_free os
          \<and> 0 \<le> write_ret os (n * sizeof T - length (bytes_of os file)) \<and> 0 < disk_free os
          \<and> n * sizeof T \<le> page_up (length (bytes_of os file)
                + accepted os (n * sizeof T - length (bytes_of os file))))"
  shows "\<exists>a os'. array_ctor T n file args os = Inr (a, os')"
proof -
  let ?B = "n * sizeof T"
  let ?L = "length (bytes_of os file)"
  have s: "size_t ?B = ?B"
    using assms(3) by (simp add: size_t_def)
  have B: "0 < ?B"
    using assms(1,2) by simp
  let ?c1 = "bytes_of os file @ take (accepted os (?B - ?L)) (heap_bytes (?B - ?L) os)"
  let ?mp = "\<lparr>mp_path = file, mp_len = ?B\<rparr>"
  define base where "base = fst (projr (alloc_ctor ?B file os))"
  define os1 where "os1 = snd (projr (alloc_ctor ?B file os))"
  have a: "alloc_ctor ?B file os = Inr (base, os1)"
    and mb: "a_map base = Ptr (next_map os) 0"
    and m1: "maps os1 (next_map os) = Some ?mp"
    using B r by (auto simp: base_def os1_def alloc_ctor_eq bytes_of_def split: option.splits)
  have f1: "files os1 (mp_path ?mp) = Some ?c1"
    using B r
    by (cases "files os file")
      (auto simp: os1_def alloc_ctor_eq bytes_of_def accepted_def)
  have len: "?B \<le> page_up (length ?c1)"
  proof (cases "?B \<le> ?L")
    case True
    then have "?B \<le> length ?c1"
      by simp
    with le_page_up [of "length ?c1"] show ?thesis
      by linarith
  next
    case False
    with r have "?B \<le> page_up (?L + accepted os (?B - ?L))"
      by auto
    moreover have "length ?c1 = ?L + accepted os (?B - ?L)"
      by (simp add: accepted_def)
    ultimately show ?thesis
      by simp
  qed
  have mpl: "?B \<le> page_up (mp_len ?mp)"
    using le_page_up [of ?B] by simp
  from construct_loop_returns [OF m1 f1 mpl len, of args "a_init base div sizeof T"]
  obtain os' where l: "construct_loop T (Ptr (next_map os) 0) args (a_init base div sizeof T) n
      os1 = Inr os'"
    by auto
  show ?thesis
    unfolding array_ctor_def s a
    by (simp add: alloc_initialized_def mb l)
qed

text \<open>
  C2. When the sized constructor of \<open>array\<close> returns, \<open>size()\<close> is \<open>n\<close>. With
  \<open>builtCount = initialized() div sizeof T\<close>, the constructor calls it has made are
  exactly those of the elements \<open>builtCount, \<dots>, n - 1\<close>, in this order, each at
  \<^verbatim>\<open>_po + i\<close> and with the given arguments; each of these elements then reads, through
  the array, as the value the constructor builds from the arguments; and the bytes of
  the elements below \<open>builtCount\<close> are the bytes the file had.
\<close>

theorem array_ctor_constructs_unbuilt_suffix:
  assumes "0 < sizeof T" and "array_ctor T n file args os = Inr (a, os')"
  shows "array_size a = n
    \<and> constructions (events os') = constructions (events os) @
         map (\<lambda>i. (ptr_add (r_po a) (i * sizeof T), args))
           [alloc_initialized a div sizeof T ..< n]
    \<and> (\<forall>i. alloc_initialized a div sizeof T \<le> i \<and> i < n \<longrightarrow>
          load (ptr_add (r_po a) (i * sizeof T)) (sizeof T) os' = Inr (rep T args))
    \<and> (\<exists>c'. files os' file = Some c'
          \<and> take (alloc_initialized a div sizeof T * sizeof T) c'
              = take (alloc_initialized a div sizeof T * sizeof T) (bytes_of os file))"
proof -
  from array_ctor_effect [OF assms] obtain c' where
    r: "r_size a = n" "r_po a = a_map a"
    and e: "constructions (events os') = constructions (events os) @
         map (\<lambda>i. (ptr_add (a_map a) (i * sizeof T), args)) [a_init a div sizeof T ..< n]"
    and f: "files os' = (files os)(file \<mapsto> c')"
      "take (a_init a div sizeof T * sizeof T) c'
         = take (a_init a div sizeof T * sizeof T) (bytes_of os file)"
    and l: "a_init a div sizeof T < n \<Longrightarrow>
          (\<forall>i. a_init a div sizeof T \<le> i \<and> i < n \<longrightarrow>
                load (ptr_add (a_map a) (i * sizeof T)) (sizeof T) os' = Inr (rep T args))"
    by blast
  have "\<forall>i. a_init a div sizeof T \<le> i \<and> i < n \<longrightarrow>
          load (ptr_add (a_map a) (i * sizeof T)) (sizeof T) os' = Inr (rep T args)"
  proof (cases "a_init a div sizeof T < n")
    case True
    then show ?thesis
      by (rule l)
  next
    case False
    then show ?thesis
      by auto
  qed
  with r e f show ?thesis
    by (simp add: array_size_def alloc_initialized_def)
qed

theorem array_ctor_constructs_unbuilt_suffix_witness:
  "0 < sizeof T4
   \<and> (\<exists>a os'. array_ctor T4 3 ''p'' 7 (os_with [1, 2, 3, 4, 5, 6]) = Inr (a, os')
        \<and> array_size a = 3 \<and> alloc_initialized a div sizeof T4 = 1
        \<and> constructions (events os') = [(ptr_add (r_po a) 4, 7), (ptr_add (r_po a) 8, 7)]
        \<and> load (ptr_add (r_po a) 4) 4 os' = Inr [7, 8, 9, 10]
        \<and> load (ptr_add (r_po a) 8) 4 os' = Inr [7, 8, 9, 10]
        \<and> (\<exists>c'. files os' ''p'' = Some c' \<and> take 4 c' = [1, 2, 3, 4]))
   \<and> (\<exists>a os'. array_ctor T4 3 ''p'' 7 (os_with [1, 2, 3, 4]\<lparr>disk_free := 5\<rparr>) = Inr (a, os')
        \<and> constructions (events os') = [(ptr_add (r_po a) 4, 7), (ptr_add (r_po a) 8, 7)]
        \<and> load (ptr_add (r_po a) 8) 4 os' = Inr [7, 8, 9, 10])"
proof -
  note sz = T4_facts(1)
  have u: "[Suc 0..<3] = [1, 2]" "[1..<3] = [1, 2 :: nat]"
    by (simp_all add: upt_rec)
  have pu: "12 \<le> page_up 12" "12 \<le> page_up 9"
    by (simp_all add: page_up_def page_size_def)
  have "\<exists>a os'. array_ctor T4 3 ''p'' 7 (os_with [1, 2, 3, 4, 5, 6]) = Inr (a, os')"
    by (rule array_ctor_returns) (simp_all add: T4_facts os_with_facts accepted_def pu)
  then obtain a os' where c: "array_ctor T4 3 ''p'' 7 (os_with [1, 2, 3, 4, 5, 6]) = Inr (a, os')"
    by blast
  from array_ctor_effect [OF sz c] have i: "alloc_initialized a = 6"
    by (simp add: alloc_initialized_def T4_facts os_with_facts size_t_def)
  have d: "alloc_initialized a div sizeof T4 = 1" "alloc_initialized a div 4 = 1"
    by (simp_all add: i T4_facts)
  note t = array_ctor_constructs_unbuilt_suffix [OF sz c]
  from t have n: "array_size a = 3"
    and e: "constructions (events os') = constructions (events (os_with [1, 2, 3, 4, 5, 6])) @
         map (\<lambda>i. (ptr_add (r_po a) (i * sizeof T4), 7))
           [alloc_initialized a div sizeof T4 ..< 3]"
    and l: "\<And>i. alloc_initialized a div sizeof T4 \<le> i \<Longrightarrow> i < 3 \<Longrightarrow>
          load (ptr_add (r_po a) (i * sizeof T4)) (sizeof T4) os' = Inr (rep T4 7)"
    and f: "\<exists>c'. files os' ''p'' = Some c'
          \<and> take (alloc_initialized a div sizeof T4 * sizeof T4) c'
              = take (alloc_initialized a div sizeof T4 * sizeof T4)
                  (bytes_of (os_with [1, 2, 3, 4, 5, 6]) ''p'')"
    by blast+
  from e have e': "constructions (events os') = [(ptr_add (r_po a) 4, 7), (ptr_add (r_po a) 8, 7)]"
    by (simp add: d T4_facts os_with_facts u)
  from l [of 1] l [of 2] have l': "load (ptr_add (r_po a) 4) 4 os' = Inr [7, 8, 9, 10]"
    "load (ptr_add (r_po a) 8) 4 os' = Inr [7, 8, 9, 10]"
    by (simp_all add: d T4_facts rep_T4)
  from f have f': "\<exists>c'. files os' ''p'' = Some c' \<and> take 4 c' = [1, 2, 3, 4]"
    by (simp add: d T4_facts os_with_facts)
  let ?os = "os_with [1, 2, 3, 4]\<lparr>disk_free := 5\<rparr>"
  have "\<exists>a os'. array_ctor T4 3 ''p'' 7 ?os = Inr (a, os')"
    by (rule array_ctor_returns) (simp_all add: T4_facts os_with_facts accepted_def pu)
  then obtain a2 os2 where c2: "array_ctor T4 3 ''p'' 7 ?os = Inr (a2, os2)"
    by blast
  from array_ctor_effect [OF sz c2] have i2: "alloc_initialized a2 = 4"
    by (simp add: alloc_initialized_def T4_facts os_with_facts size_t_def)
  have d2: "alloc_initialized a2 div sizeof T4 = 1" "alloc_initialized a2 div 4 = 1"
    by (simp_all add: i2 T4_facts)
  note t2 = array_ctor_constructs_unbuilt_suffix [OF sz c2]
  from t2 have e2: "constructions (events os2) = constructions (events ?os) @
         map (\<lambda>i. (ptr_add (r_po a2) (i * sizeof T4), 7))
           [alloc_initialized a2 div sizeof T4 ..< 3]"
    and l2: "\<And>i. alloc_initialized a2 div sizeof T4 \<le> i \<Longrightarrow> i < 3 \<Longrightarrow>
          load (ptr_add (r_po a2) (i * sizeof T4)) (sizeof T4) os2 = Inr (rep T4 7)"
    by blast+
  from e2 have e2': "constructions (events os2)
      = [(ptr_add (r_po a2) 4, 7), (ptr_add (r_po a2) 8, 7)]"
    by (simp add: d2 T4_facts os_with_facts u)
  from l2 [of 2] have l2': "load (ptr_add (r_po a2) 8) 4 os2 = Inr [7, 8, 9, 10]"
    by (simp add: d2 T4_facts rep_T4)
  have A: "\<exists>a os'. array_ctor T4 3 ''p'' 7 (os_with [1, 2, 3, 4, 5, 6]) = Inr (a, os')
        \<and> array_size a = 3 \<and> alloc_initialized a div sizeof T4 = 1
        \<and> constructions (events os') = [(ptr_add (r_po a) 4, 7), (ptr_add (r_po a) 8, 7)]
        \<and> load (ptr_add (r_po a) 4) 4 os' = Inr [7, 8, 9, 10]
        \<and> load (ptr_add (r_po a) 8) 4 os' = Inr [7, 8, 9, 10]
        \<and> (\<exists>c'. files os' ''p'' = Some c' \<and> take 4 c' = [1, 2, 3, 4])"
    using c n d(1) e' l' f' by blast
  have B: "\<exists>a os'. array_ctor T4 3 ''p'' 7 ?os = Inr (a, os')
        \<and> constructions (events os') = [(ptr_add (r_po a) 4, 7), (ptr_add (r_po a) 8, 7)]
        \<and> load (ptr_add (r_po a) 8) 4 os' = Inr [7, 8, 9, 10]"
    using c2 e2' l2' by blast
  from sz A B show ?thesis
    by blast
qed

text \<open>
  C3. On a file of exactly \<open>N1\<close> elements, when the constructor for \<open>N2 > N1\<close>
  elements returns, the count of built elements was \<open>N1\<close>; only the file \<open>file\<close> has
  changed, it has grown by what the write has transferred and its first \<open>N1\<close>
  elements are the bytes it had;
  and the elements constructed are \<open>N1, \<dots>, N2 - 1\<close>, each of which reads as the value
  the constructor builds.
\<close>

theorem array_growth_preserves_prefix:
  assumes sz: "0 < sizeof T"
    and c: "files os file = Some c" "length c = N1 * sizeof T"
    and N: "N1 < N2"
    and ok: "array_ctor T N2 file args os = Inr (a, os')"
  shows "alloc_initialized a div sizeof T = N1
    \<and> (\<exists>c'. files os' = (files os)(file \<mapsto> c')
            \<and> length c' = length c + accepted os (N2 * sizeof T - length c)
            \<and> take (N1 * sizeof T) c' = c)
    \<and> constructions (events os') = constructions (events os) @
         map (\<lambda>i. (ptr_add (r_po a) (i * sizeof T), args)) [N1 ..< N2]
    \<and> (\<forall>i. N1 \<le> i \<and> i < N2 \<longrightarrow>
          load (ptr_add (r_po a) (i * sizeof T)) (sizeof T) os' = Inr (rep T args))"
proof -
  let ?s = "sizeof T"
  let ?B = "size_t (N2 * ?s)"
  have bo: "bytes_of os file = c"
    by (simp add: bytes_of_def c)
  from array_ctor_effect [OF sz ok] obtain c' where
    r: "r_po a = a_map a"
    and ai: "a_init a = (if ?B = 0 then length c else min (length c) ?B)"
    and e: "constructions (events os') = constructions (events os) @
         map (\<lambda>i. (ptr_add (a_map a) (i * ?s), args)) [a_init a div ?s ..< N2]"
    and f: "files os' = (files os)(file \<mapsto> c')"
      "length c' = length c + accepted os (?B - length c)"
      "take (a_init a div ?s * ?s) c' = take (a_init a div ?s * ?s) c"
    and l: "a_init a div ?s < N2 \<Longrightarrow> N2 * ?s < 2 ^ 64
          \<and> (\<forall>i. a_init a div ?s \<le> i \<and> i < N2 \<longrightarrow>
                load (ptr_add (a_map a) (i * ?s)) ?s os' = Inr (rep T args))"
    unfolding bo by blast
  have "a_init a \<le> N1 * ?s"
    by (simp add: ai c(2))
  then have "a_init a div ?s \<le> (N1 * ?s) div ?s"
    by (rule div_le_mono)
  with N sz have lt: "a_init a div ?s < N2"
    by simp
  from l [OF lt] have B: "?B = N2 * ?s"
    and ld: "\<forall>i. a_init a div ?s \<le> i \<and> i < N2 \<longrightarrow>
                load (ptr_add (a_map a) (i * ?s)) ?s os' = Inr (rep T args)"
    by (simp_all add: size_t_def)
  have "N1 * ?s < N2 * ?s"
    using N sz by simp
  then have init: "a_init a = N1 * ?s"
    by (simp add: ai B c(2))
  then have b: "a_init a div ?s = N1"
    using sz by simp
  have "take (N1 * ?s) c' = c"
    using f(3) c(2) by (simp add: b)
  moreover have "length c' = length c + accepted os (N2 * ?s - length c)"
    using f(2) by (simp add: B)
  ultimately have "\<exists>c'. files os' = (files os)(file \<mapsto> c')
            \<and> length c' = length c + accepted os (N2 * ?s - length c)
            \<and> take (N1 * ?s) c' = c"
    using f(1) by blast
  with e ld show ?thesis
    by (simp add: alloc_initialized_def r b)
qed

theorem array_growth_preserves_prefix_witness:
  "0 < sizeof T4 \<and> files (os_with [1, 2, 3, 4]) ''p'' = Some [1, 2, 3, 4]
   \<and> length [1, 2, 3, 4 :: byte] = 1 * sizeof T4 \<and> (1 :: nat) < 3
   \<and> (\<exists>a os'. array_ctor T4 3 ''p'' 7 (os_with [1, 2, 3, 4]) = Inr (a, os')
        \<and> alloc_initialized a div sizeof T4 = 1
        \<and> (\<exists>c'. files os' = (files (os_with [1, 2, 3, 4]))(''p'' \<mapsto> c') \<and> length c' = 12
              \<and> take 4 c' = [1, 2, 3, 4])
        \<and> constructions (events os') = [(ptr_add (r_po a) 4, 7), (ptr_add (r_po a) 8, 7)]
        \<and> load (ptr_add (r_po a) 8) 4 os' = Inr [7, 8, 9, 10])
   \<and> files (os_with [1, 2, 3, 4]\<lparr>disk_free := 5\<rparr>) ''p'' = Some [1, 2, 3, 4]
   \<and> (\<exists>a os'. array_ctor T4 3 ''p'' 7 (os_with [1, 2, 3, 4]\<lparr>disk_free := 5\<rparr>) = Inr (a, os')
        \<and> (\<exists>c'. files os' = (files (os_with [1, 2, 3, 4]\<lparr>disk_free := 5\<rparr>))(''p'' \<mapsto> c')
              \<and> length c' = 9 \<and> take 4 c' = [1, 2, 3, 4])
        \<and> constructions (events os') = [(ptr_add (r_po a) 4, 7), (ptr_add (r_po a) 8, 7)]
        \<and> load (ptr_add (r_po a) 8) 4 os' = Inr [7, 8, 9, 10])"
proof -
  note sz = T4_facts(1)
  have u: "[Suc 0..<3] = [1, 2]" "[1..<3] = [1, 2 :: nat]"
    by (simp_all add: upt_rec)
  have pu: "12 \<le> page_up 12" "12 \<le> page_up 9"
    by (simp_all add: page_up_def page_size_def)
  have l: "length [1, 2, 3, 4 :: byte] = 1 * sizeof T4"
    by (simp add: T4_facts)
  have n: "(1 :: nat) < 3"
    by simp
  let ?os1 = "os_with [1, 2, 3, 4]"
  let ?os2 = "os_with [1, 2, 3, 4]\<lparr>disk_free := 5\<rparr>"
  have f1: "files ?os1 ''p'' = Some [1, 2, 3, 4]" and f2: "files ?os2 ''p'' = Some [1, 2, 3, 4]"
    by (simp_all add: os_with_facts)
  have "\<exists>a os'. array_ctor T4 3 ''p'' 7 ?os1 = Inr (a, os')"
    by (rule array_ctor_returns) (simp_all add: T4_facts os_with_facts accepted_def pu)
  then obtain a1 r1 where c1: "array_ctor T4 3 ''p'' 7 ?os1 = Inr (a1, r1)"
    by blast
  have "\<exists>a os'. array_ctor T4 3 ''p'' 7 ?os2 = Inr (a, os')"
    by (rule array_ctor_returns) (simp_all add: T4_facts os_with_facts accepted_def pu)
  then obtain a2 r2 where c2: "array_ctor T4 3 ''p'' 7 ?os2 = Inr (a2, r2)"
    by blast
  note t1 = array_growth_preserves_prefix [OF sz f1 l n c1]
  note t2 = array_growth_preserves_prefix [OF sz f2 l n c2]
  from t1 have A0: "alloc_initialized a1 div sizeof T4 = 1
        \<and> (\<exists>c'. files r1 = (files ?os1)(''p'' \<mapsto> c') \<and> length c' = 12
              \<and> take 4 c' = [1, 2, 3, 4])
        \<and> constructions (events r1) = [(ptr_add (r_po a1) 4, 7), (ptr_add (r_po a1) 8, 7)]
        \<and> (\<forall>i. 1 \<le> i \<and> i < 3 \<longrightarrow>
              load (ptr_add (r_po a1) (i * 4)) 4 r1 = Inr [7, 8, 9, 10])"
    by (simp add: T4_facts os_with_facts accepted_def u rep_T4)
  then have "load (ptr_add (r_po a1) (2 * 4)) 4 r1 = Inr [7, 8, 9, 10]"
    by (elim conjE allE [of _ 2]) simp
  with A0 have A: "alloc_initialized a1 div sizeof T4 = 1
        \<and> (\<exists>c'. files r1 = (files ?os1)(''p'' \<mapsto> c') \<and> length c' = 12
              \<and> take 4 c' = [1, 2, 3, 4])
        \<and> constructions (events r1) = [(ptr_add (r_po a1) 4, 7), (ptr_add (r_po a1) 8, 7)]
        \<and> load (ptr_add (r_po a1) 8) 4 r1 = Inr [7, 8, 9, 10]"
    by simp
  from t2 have B0: "(\<exists>c'. files r2 = (files ?os2)(''p'' \<mapsto> c') \<and> length c' = 9
              \<and> take 4 c' = [1, 2, 3, 4])
        \<and> constructions (events r2) = [(ptr_add (r_po a2) 4, 7), (ptr_add (r_po a2) 8, 7)]
        \<and> (\<forall>i. 1 \<le> i \<and> i < 3 \<longrightarrow>
              load (ptr_add (r_po a2) (i * 4)) 4 r2 = Inr [7, 8, 9, 10])"
    by (simp add: T4_facts os_with_facts accepted_def u rep_T4)
  then have "load (ptr_add (r_po a2) (2 * 4)) 4 r2 = Inr [7, 8, 9, 10]"
    by (elim conjE allE [of _ 2]) simp
  with B0 have B: "(\<exists>c'. files r2 = (files ?os2)(''p'' \<mapsto> c') \<and> length c' = 9
              \<and> take 4 c' = [1, 2, 3, 4])
        \<and> constructions (events r2) = [(ptr_add (r_po a2) 4, 7), (ptr_add (r_po a2) 8, 7)]
        \<and> load (ptr_add (r_po a2) 8) 4 r2 = Inr [7, 8, 9, 10]"
    by simp
  from sz f1 f2 l n c1 c2 A B show ?thesis
    by blast
qed

text \<open>
  C10. On a file that exists, \<open>open\<close> with a size between 1 and the length of the
  file returns that size as the initialised length and writes nothing: the files, the
  events and the room on the disk are as before. So a sized array of \<open>N\<close> elements, with
  \<open>N\<close> at most the number of whole elements in the file, returns with \<open>size() = N\<close>
  and has constructed and written nothing.
\<close>

theorem open_within_existing_length_writes_nothing:
  assumes "files os file = Some c"
  shows "(0 < n \<and> n \<le> length c \<longrightarrow>
           (\<exists>fd os'. open file n os = Inr ((fd, n), os')
              \<and> files os' = files os \<and> events os' = events os
              \<and> disk_free os' = disk_free os))
       \<and> (0 < sizeof T \<and> N \<le> length c div sizeof T \<and> length c < 2 ^ 63 \<longrightarrow>
           (\<exists>a os'. array_ctor T N file args os = Inr (a, os')
              \<and> array_size a = N
              \<and> files os' = files os \<and> events os' = events os
              \<and> disk_free os' = disk_free os))"
proof (intro conjI impI)
  assume "0 < n \<and> n \<le> length c"
  then show "\<exists>fd os'. open file n os = Inr ((fd, n), os')
              \<and> files os' = files os \<and> events os' = events os
              \<and> disk_free os' = disk_free os"
    by (simp add: open_existing [OF assms])
next
  assume h: "0 < sizeof T \<and> N \<le> length c div sizeof T \<and> length c < 2 ^ 63"
  then have "N * sizeof T \<le> (length c div sizeof T) * sizeof T"
    by simp
  also have "\<dots> \<le> length c"
    by simp
  finally have le: "N * sizeof T \<le> length c" .
  with h have s: "size_t (N * sizeof T) = N * sizeof T"
    by (simp add: size_t_def)
  have bo: "bytes_of os file = c"
    by (simp add: bytes_of_def assms)
  have d: "(if N = 0 then length c else min (length c) (N * sizeof T)) div sizeof T \<ge> N"
    using h le by (simp add: min_def)
  show "\<exists>a os'. array_ctor T N file args os = Inr (a, os')
              \<and> array_size a = N
              \<and> files os' = files os \<and> events os' = events os
              \<and> disk_free os' = disk_free os"
    using h le d assms
    by (simp add: array_ctor_def s alloc_ctor_eq bo alloc_initialized_def array_size_def
        construct_loop.simps [of _ _ _ _ N])
qed

theorem open_within_existing_length_writes_nothing_witness:
  "files (os_with [1, 2, 3, 4, 5, 6, 7, 8, 9]) ''p'' = Some [1, 2, 3, 4, 5, 6, 7, 8, 9]
   \<and> (\<exists>fd os'. open ''p'' 4 (os_with [1, 2, 3, 4, 5, 6, 7, 8, 9]) = Inr ((fd, 4), os')
         \<and> files os' = files (os_with [1, 2, 3, 4, 5, 6, 7, 8, 9]))
   \<and> (\<exists>a os'. array_ctor T4 2 ''p'' 7 (os_with [1, 2, 3, 4, 5, 6, 7, 8, 9]) = Inr (a, os')
         \<and> array_size a = 2
         \<and> files os' = files (os_with [1, 2, 3, 4, 5, 6, 7, 8, 9])
         \<and> events os' = events (os_with [1, 2, 3, 4, 5, 6, 7, 8, 9]))"
proof -
  have f: "files (os_with [1, 2, 3, 4, 5, 6, 7, 8, 9]) ''p'' = Some [1, 2, 3, 4, 5, 6, 7, 8, 9]"
    by (simp add: os_with_def)
  have h1: "(0 :: nat) < 4 \<and> 4 \<le> length [1, 2, 3, 4, 5, 6, 7, 8, 9 :: byte]"
    by simp
  have h2: "0 < sizeof T4 \<and> 2 \<le> length [1, 2, 3, 4, 5, 6, 7, 8, 9 :: byte] div sizeof T4
      \<and> length [1, 2, 3, 4, 5, 6, 7, 8, 9 :: byte] < 2 ^ 63"
    by (simp add: T4_def)
  show ?thesis
    using open_within_existing_length_writes_nothing [OF f, of 4 T4 2 7] f h1 h2
    by blast
qed

text \<open>
  What the constructor from a path alone does on a file that exists: it returns, writes
  and constructs nothing, records the length of the file as the initialised length, and
  takes the element count from the length reduced to \<^verbatim>\<open>unsigned\<close>.
\<close>

lemma array_ctor_file_existing:
  assumes "files os file = Some c"
  shows "\<exists>a os'. array_ctor_file T file os = Inr (a, os')
           \<and> array_size a = unsigned (length c) div sizeof T
           \<and> alloc_initialized a = length c \<and> a_size a = length c
           \<and> files os' = files os \<and> events os' = events os"
  by (simp add: array_ctor_file_def alloc_ctor_file_existing [OF assms] array_size_def
      alloc_size_def alloc_initialized_def)

text \<open>
  C5 does not hold of the code. The constructor from a path alone takes the element
  count from \<^verbatim>\<open>alloc::size()\<close>, whose result type is \<^verbatim>\<open>unsigned\<close>: on a file of
  \<open>2 ^ 32\<close> one-byte elements \<open>size()\<close> is 0.
\<close>

theorem array_ctor_file_size_truncated:
  "length (the (files os_4g ''p'')) div sizeof T1 = 4294967296
   \<and> array_size (fst (projr (array_ctor_file T1 ''p'' os_4g))) = 0"
proof -
  have f: "files os_4g ''p'' = Some (replicate 4294967296 0)"
    by (simp add: os_4g_def)
  show ?thesis
    by (simp add: array_ctor_file_def alloc_ctor_file_existing [OF f] f array_size_def
        alloc_size_def unsigned_def T1_def)
qed

section \<open>Indexed access\<close>

text \<open>
  C6. \<^verbatim>\<open>operator[]\<close>, const or not, raises the out-of-range error exactly when the
  index is at least \<open>size()\<close>, and below \<open>size()\<close> it returns the address of
  element \<open>n\<close>, which is \<^verbatim>\<open>_po + n\<close>.
\<close>

theorem array_index_bounds:
  "(isl (array_index T m n) \<longleftrightarrow> array_size m \<le> n)
   \<and> (isl (array_index_const T m n) \<longleftrightarrow> array_size m \<le> n)
   \<and> (array_size m \<le> n \<longrightarrow>
        array_index T m n = Inl (overlimit n (array_size m))
        \<and> array_index_const T m n = Inl (overlimit n (array_size m)))
   \<and> (n < array_size m \<longrightarrow>
        array_index T m n = Inr (ptr_add (r_po m) (n * sizeof T))
        \<and> array_index_const T m n = Inr (ptr_add (r_po m) (n * sizeof T)))"
  by (simp add: array_index_def array_index_const_def array_size_def)

theorem array_index_bounds_witness:
  "array_size arr3 \<le> 3 \<and> 2 < array_size arr3
   \<and> array_index T4 arr3 3 = Inl (overlimit 3 3)
   \<and> array_index_const T4 arr3 3 = Inl (overlimit 3 3)
   \<and> array_index T4 arr3 2 = Inr (Ptr 0 8)
   \<and> array_index_const T4 arr3 2 = Inr (Ptr 0 8)"
proof -
  have s: "array_size arr3 = 3" "r_po arr3 = Ptr 0 0" "sizeof T4 = 4"
    by (simp_all add: array_size_def arr3_def T4_def)
  show ?thesis
    using array_index_bounds [of T4 arr3 3] array_index_bounds [of T4 arr3 2]
    by (simp add: s)
qed

section \<open>Moves\<close>

text \<open>
  C9, as amended. Move construction hands every field to the new handle. The source
  is left with a null \<^verbatim>\<open>_map\<close> and lengths 0 in its \<open>memory\<close> or \<open>alloc\<close> part, so
  its destructor changes nothing: no \<^verbatim>\<open>munmap\<close>, no write. A moved-from \<open>object\<close> or
  \<open>array\<close> keeps its \<^verbatim>\<open>_po\<close>, and the array its element count. Move assignment swaps
  the \<open>alloc\<close> parts of the two handles.
\<close>

theorem moved_from_handles:
  "memory_move m = (m, \<lparr>m_map = nullptr, m_init = 0\<rparr>)
   \<and> memory_dtor SIZE (snd (memory_move m)) os = os
   \<and> alloc_move a = (a, \<lparr>a_map = nullptr, a_init = 0, a_size = 0\<rparr>)
   \<and> alloc_dtor (snd (alloc_move a)) os = os
   \<and> object_move ob = (ob, \<lparr>m_map = nullptr, m_init = 0, o_po = o_po ob\<rparr>)
   \<and> object_dtor T (snd (object_move ob)) os = os
   \<and> array_move ar = (ar, \<lparr>a_map = nullptr, a_init = 0, a_size = 0,
                            r_size = r_size ar, r_po = r_po ar\<rparr>)
   \<and> array_dtor (snd (array_move ar)) os = os
   \<and> alloc_move_assign b a = (a, b)
   \<and> array_move_assign br ar =
        (ar, \<lparr>a_map = a_map br, a_init = a_init br, a_size = a_size br,
              r_size = r_size ar, r_po = r_po ar\<rparr>)"
  by (simp add: memory_move_def memory_dtor_def alloc_move_def alloc_dtor_def object_move_def
      object_dtor_def array_move_def array_dtor_def alloc_move_assign_def array_move_assign_def)

text \<open>
  C9, as stated, fails. A moved-from array of three elements still has \<open>size() = 3\<close>,
  its \<^verbatim>\<open>_po\<close> is the address of the mapping that the new handle owns, and indexing it
  succeeds. After a move assignment the source holds the mapping that the destination
  had, and its destructor unmaps it.
\<close>

theorem moved_from_handle_counterexample:
  "array_size (snd (array_move arr3)) = 3
   \<and> r_po (snd (array_move arr3)) = a_map (fst (array_move arr3))
   \<and> array_index T4 (snd (array_move arr3)) 2 = Inr (Ptr 0 8)
   \<and> snd (alloc_move_assign alloc_a alloc_b) = alloc_a
   \<and> events (alloc_dtor (snd (alloc_move_assign alloc_a alloc_b)) os_maps)
        = [Munmap (Ptr 0 0) 12]
   \<and> maps os_maps 0 = Some \<lparr>mp_path = ''p'', mp_len = 12\<rparr>
   \<and> maps (alloc_dtor (snd (alloc_move_assign alloc_a alloc_b)) os_maps) 0 = None"
  by (simp add: array_move_def alloc_move_def arr3_def array_size_def array_index_def T4_def
      alloc_move_assign_def alloc_a_def alloc_b_def alloc_dtor_def sys_munmap_def os_maps_def
      os_empty_def)

end
